theory Spec2Isabelle
  imports Complex_Main
begin

section \<open>JavaScript built-ins used by the server\<close>

text \<open>
  A character is a code unit below 256, so a string is a JavaScript string over the first
  256 code points (ASCII and Latin-1); code units from 256 on are outside the type.
  \<^verbatim>\<open>String.prototype.toLowerCase\<close> maps the capital letters of this range, A-Z and
  U+00C0 to U+00DE without the multiplication sign U+00D7, to the letter 32 places higher,
  and leaves every other code unit alone. Time stamps are integers
  (milliseconds since the epoch, what \<^verbatim>\<open>Date.getTime\<close> returns). JavaScript numbers are
  idealised as rationals, with \<open>None\<close> standing for NaN; rounding of doubles and the
  infinities are not modelled.
\<close>

definition toLowerChar :: "char \<Rightarrow> char" where
  "toLowerChar c =
     (let n = (of_char c :: int)
      in if (65 \<le> n \<and> n \<le> 90) \<or> (192 \<le> n \<and> n \<le> 222 \<and> n \<noteq> 215)
         then char_of (n + 32) else c)"

definition toLowerCase :: "string \<Rightarrow> string" where
  "toLowerCase s = map toLowerChar s"

text \<open>
  The white space and line terminators of ECMAScript below 256: TAB, LF, VT, FF, CR, SP and
  the no-break space U+00A0.
\<close>

definition isStrWhiteSpace :: "char \<Rightarrow> bool" where
  "isStrWhiteSpace c = ((of_char c :: int) \<in> set [9, 10, 11, 12, 13, 32, 160])"

definition trimStart :: "string \<Rightarrow> string" where
  "trimStart s = dropWhile isStrWhiteSpace s"

definition trim :: "string \<Rightarrow> string" where
  "trim s = rev (dropWhile isStrWhiteSpace (rev (dropWhile isStrWhiteSpace s)))"

text \<open>The value of a digit character in base up to 36, as the numeric literal grammar reads it.\<close>

definition digitValue :: "char \<Rightarrow> int option" where
  "digitValue c =
     (let n = (of_char c :: int) in
      if 48 \<le> n \<and> n \<le> 57 then Some (n - 48)
      else if 97 \<le> n \<and> n \<le> 122 then Some (n - 87)
      else if 65 \<le> n \<and> n \<le> 90 then Some (n - 55)
      else None)"

definition isDigitIn :: "int \<Rightarrow> char \<Rightarrow> bool" where
  "isDigitIn radix c = (case digitValue c of None \<Rightarrow> False | Some d \<Rightarrow> d < radix)"

fun digitsValue :: "int \<Rightarrow> int \<Rightarrow> string \<Rightarrow> int" where
  "digitsValue radix acc [] = acc"
| "digitsValue radix acc (c # cs) =
     digitsValue radix (acc * radix + (case digitValue c of None \<Rightarrow> 0 | Some d \<Rightarrow> d)) cs"

definition parseDigits :: "int \<Rightarrow> string \<Rightarrow> int option" where
  "parseDigits radix ds =
     (if ds \<noteq> [] \<and> list_all (isDigitIn radix) ds then Some (digitsValue radix 0 ds) else None)"

text \<open>
  \<^verbatim>\<open>BigInt(s)\<close> on a string (StringToBigInt): white space is trimmed; the empty string is
  \<open>0n\<close>; a \<^verbatim>\<open>0x\<close>, \<^verbatim>\<open>0o\<close> or \<^verbatim>\<open>0b\<close> prefix selects the radix and takes no sign; otherwise
  an optional sign and decimal digits. Anything else throws SyntaxError, here \<open>None\<close>.
\<close>

definition StringToBigInt :: "string \<Rightarrow> int option" where
  "StringToBigInt s =
     (let t = trim s in
      if t = [] then Some 0
      else if take 2 t = ''0x'' \<or> take 2 t = ''0X'' then parseDigits 16 (drop 2 t)
      else if take 2 t = ''0o'' \<or> take 2 t = ''0O'' then parseDigits 8 (drop 2 t)
      else if take 2 t = ''0b'' \<or> take 2 t = ''0B'' then parseDigits 2 (drop 2 t)
      else if take 1 t = ''-'' then map_option uminus (parseDigits 10 (drop 1 t))
      else if take 1 t = ''+'' then parseDigits 10 (drop 1 t)
      else parseDigits 10 t)"

text \<open>
  \<^verbatim>\<open>parseInt(s)\<close> without a radix: leading white space and a sign are skipped, a
  \<^verbatim>\<open>0x\<close> prefix selects base 16, and the longest prefix of digits is read; with no digit
  the result is NaN, here \<open>None\<close>.
\<close>

definition parseIntDigits :: "int \<Rightarrow> string \<Rightarrow> int option" where
  "parseIntDigits radix t =
     (let ds = takeWhile (isDigitIn radix) t in
      if ds = [] then None else Some (digitsValue radix 0 ds))"

definition parseIntUnsigned :: "string \<Rightarrow> int option" where
  "parseIntUnsigned t =
     (if take 2 t = ''0x'' \<or> take 2 t = ''0X'' then parseIntDigits 16 (drop 2 t)
      else parseIntDigits 10 t)"

definition parseInt :: "string \<Rightarrow> int option" where
  "parseInt s =
     (let t = trimStart s in
      if take 1 t = ''-'' then map_option uminus (parseIntUnsigned (drop 1 t))
      else if take 1 t = ''+'' then parseIntUnsigned (drop 1 t)
      else parseIntUnsigned t)"

text \<open>
  \<^verbatim>\<open>new Date(ms).toISOString()\<close> throws RangeError when the time value is NaN or
  outside \<open>\<plusminus>8.64e15\<close>; otherwise the string denotes exactly \<open>ms\<close>. The model keeps the
  time value and returns \<open>None\<close> for the throw.
\<close>

definition toISOString :: "int option \<Rightarrow> int option" where
  "toISOString ms =
     (case ms of None \<Rightarrow> None
      | Some t \<Rightarrow> if \<bar>t\<bar> \<le> 8640000000000000 then Some t else None)"

text \<open>\<^verbatim>\<open>Math.pow(10, d)\<close> for an integer \<open>d\<close>.\<close>

definition pow10 :: "int \<Rightarrow> rat" where
  "pow10 d = (if 0 \<le> d then 10 ^ nat d else 1 / 10 ^ nat (- d))"

text \<open>The decimal digits of a non-negative integer.\<close>

function decimalString :: "int \<Rightarrow> string" where
  "decimalString n =
     (if n < 10 then [''0123456789'' ! nat n]
      else decimalString (n div 10) @ [''0123456789'' ! nat (n mod 10)])"
  by pat_completeness auto
termination
  by (relation "measure nat") auto

declare decimalString.simps [simp del]

text \<open>
  \<^verbatim>\<open>Number.prototype.toFixed(f)\<close>: the integer \<open>n\<close> nearest to \<open>x * 10^f\<close> (the larger
  one on a tie), printed with \<open>f\<close> fraction digits; NaN prints as \<^verbatim>\<open>NaN\<close>.
\<close>

definition toFixedRat :: "nat \<Rightarrow> rat \<Rightarrow> string" where
  "toFixedRat f x =
     (let n = \<lfloor>\<bar>x\<bar> * 10 ^ f + 1 / 2\<rfloor>;
          ds = decimalString n;
          padded = replicate (f + 1 - length ds) (CHR ''0'') @ ds;
          k = length padded - f;
          m = (if f = 0 then padded else take k padded @ ''.'' @ drop k padded)
      in if x < 0 then ''-'' @ m else m)"

definition toFixed :: "nat \<Rightarrow> rat option \<Rightarrow> string" where
  "toFixed f x = (case x of None \<Rightarrow> ''NaN'' | Some r \<Rightarrow> toFixedRat f r)"


section \<open>server/storage.ts\<close>

record InsertClaimHistory =
  walletAddress :: string
  amount :: string
  transactionHash :: "string option"

record ClaimHistory = InsertClaimHistory +
  claim_id :: string
  claimedAt :: int

text \<open>
  \<^verbatim>\<open>MemStorage.claimHistory\<close> is a JavaScript \<^verbatim>\<open>Map\<close>: keys in insertion order, and
  \<^verbatim>\<open>set\<close> on an existing key replaces the value in place.
\<close>

type_synonym MemStorage = "(string \<times> ClaimHistory) list"

fun map_set :: "string \<Rightarrow> ClaimHistory \<Rightarrow> MemStorage \<Rightarrow> MemStorage" where
  "map_set k v [] = [(k, v)]"
| "map_set k v (p # ps) = (if fst p = k then (k, v) # ps else p # map_set k v ps)"

definition map_values :: "MemStorage \<Rightarrow> ClaimHistory list" where
  "map_values m = map snd m"

text \<open>
  \<^verbatim>\<open>createClaimHistory\<close>; the results of \<^verbatim>\<open>randomUUID()\<close> and \<^verbatim>\<open>new Date()\<close> are the
  arguments \<open>uuid\<close> and \<open>now\<close>.
\<close>

definition createClaimHistory ::
  "string \<Rightarrow> int \<Rightarrow> InsertClaimHistory \<Rightarrow> MemStorage \<Rightarrow> MemStorage \<times> ClaimHistory" where
  "createClaimHistory uuid now insertClaim m =
     (let claim = \<lparr> walletAddress = walletAddress insertClaim,
                    amount = amount insertClaim,
                    transactionHash = transactionHash insertClaim,
                    claim_id = uuid,
                    claimedAt = now \<rparr>
      in (map_set uuid claim m, claim))"

text \<open>
  \<^verbatim>\<open>claims.sort((a, b) => b.claimedAt.getTime() - a.claimedAt.getTime())\<close>: a stable
  sort, latest first.
\<close>

definition sortByClaimedAtDesc :: "ClaimHistory list \<Rightarrow> ClaimHistory list" where
  "sortByClaimedAtDesc cs = sort_key (\<lambda>c. - claimedAt c) cs"

definition getClaimHistory :: "nat \<Rightarrow> MemStorage \<Rightarrow> ClaimHistory list" where
  "getClaimHistory limit m = take limit (sortByClaimedAtDesc (map_values m))"

definition getClaimHistoryByWallet :: "string \<Rightarrow> MemStorage \<Rightarrow> ClaimHistory list" where
  "getClaimHistoryByWallet addr m =
     sortByClaimedAtDesc
       (filter (\<lambda>claim. toLowerCase (walletAddress claim) = toLowerCase addr) (map_values m))"


section \<open>server/routes.ts\<close>

definition FAUCET_CONTRACT :: string where
  "FAUCET_CONTRACT = ''0xBd736A5D744A6364dd74B12Bb679d66360d7AeD9''"

definition USDC_ADDRESS :: string where
  "USDC_ADDRESS = ''0x3600000000000000000000000000000000000000''"

text \<open>
  \<^verbatim>\<open>interface ArcscanTokenTransfer\<close>. The field \<^verbatim>\<open>contractAddress\<close> is read with
  \<^verbatim>\<open>?.\<close>, so it may be absent.
\<close>

record ArcscanTokenTransfer =
  txHash :: string
  txFrom :: string
  txTo :: string
  txValue :: string
  txTokenSymbol :: string
  txTokenDecimal :: string
  txTimeStamp :: string
  txContractAddress :: "string option"

text \<open>\<^verbatim>\<open>const TARGET_VALUE = BigInt(200) * BigInt(10 ** 6)\<close>\<close>

definition TARGET_VALUE :: int where
  "TARGET_VALUE = 200 * 10 ^ 6"

text \<open>
  The callback given to \<^verbatim>\<open>filter\<close>, the same text in GET /api/claim-history and in
  GET /api/total-claimed. The \<^verbatim>\<open>try\<close> around \<^verbatim>\<open>BigInt(tx.value)\<close> turns a SyntaxError into
  \<^verbatim>\<open>false\<close>.
\<close>

definition claimFilter :: "ArcscanTokenTransfer \<Rightarrow> bool" where
  "claimFilter tx =
     (let fromLower = toLowerCase (txFrom tx);
          contractLower = toLowerCase FAUCET_CONTRACT;
          tokenLower = (case txContractAddress tx of None \<Rightarrow> [] | Some a \<Rightarrow> toLowerCase a);
          usdcLower = toLowerCase USDC_ADDRESS
      in case StringToBigInt (txValue tx) of
           None \<Rightarrow> False
         | Some valueBigInt \<Rightarrow>
             fromLower = contractLower \<and> tokenLower = usdcLower \<and> valueBigInt = TARGET_VALUE)"

text \<open>
  \<^verbatim>\<open>Number(BigInt(tx.value)) / Math.pow(10, parseInt(tx.tokenDecimal || '6'))\<close>. The outer
  \<open>None\<close> is the SyntaxError of \<^verbatim>\<open>BigInt\<close>, the inner one NaN.
\<close>

definition transferValue :: "ArcscanTokenTransfer \<Rightarrow> rat option option" where
  "transferValue tx =
     (let decimals = parseInt (if txTokenDecimal tx = [] then ''6'' else txTokenDecimal tx)
      in case StringToBigInt (txValue tx) of
           None \<Rightarrow> None
         | Some v \<Rightarrow> Some (map_option (\<lambda>d. of_int v / pow10 d) decimals))"

text \<open>The callback given to \<^verbatim>\<open>map\<close> in GET /api/claim-history; \<open>None\<close> when it throws.\<close>

definition toClaimEntry :: "ArcscanTokenTransfer \<Rightarrow> ClaimHistory option" where
  "toClaimEntry tx =
     (case transferValue tx of
        None \<Rightarrow> None
      | Some v \<Rightarrow>
          (case toISOString (map_option (\<lambda>n. n * 1000) (parseInt (txTimeStamp tx))) of
             None \<Rightarrow> None
           | Some t \<Rightarrow>
               Some \<lparr> walletAddress = txTo tx,
                      amount = toFixed 6 v,
                      transactionHash = Some (txHash tx),
                      claim_id = take 8 (txHash tx),
                      claimedAt = t \<rparr>))"

text \<open>
  What \<^verbatim>\<open>fetch\<close> and \<^verbatim>\<open>response.json()\<close> can produce:
  \<^item> \<open>FetchFailed\<close>: \<^verbatim>\<open>fetch\<close> rejects;
  \<^item> \<open>HttpNotOk\<close>: \<^verbatim>\<open>response.ok\<close> is false;
  \<^item> \<open>BodyNotJson\<close>: \<^verbatim>\<open>response.json()\<close> throws because the body does not parse as JSON, or
    it yields \<^verbatim>\<open>null\<close>, on which reading \<^verbatim>\<open>data.status\<close> throws;
  \<^item> \<open>Json status result\<close>: any other parsed value. \<open>status\<close> is \<^verbatim>\<open>data.status\<close> when it
    is a string and \<open>None\<close> otherwise; \<open>result\<close> is \<^verbatim>\<open>data.result\<close>: falsy, truthy but not
    an array, or an array of transfers. A JSON value that is not an object (a number, a
    string, an array, a boolean) has neither property and is \<open>Json None ResultMissing\<close>.
\<close>

datatype FeedResult = ResultMissing | ResultNotArray | ResultArray "ArcscanTokenTransfer list"

datatype FeedResponse =
    FetchFailed
  | HttpNotOk
  | BodyNotJson
  | Json "string option" FeedResult

text \<open>A response is the HTTP status and the JSON body; \<^verbatim>\<open>res.json\<close> answers 200.\<close>

definition getClaimHistoryRoute :: "MemStorage \<Rightarrow> FeedResponse \<Rightarrow> nat \<times> ClaimHistory list" where
  "getClaimHistoryRoute storage feed =
     (let localClaims = (200, getClaimHistory 50 storage) in
      case feed of
        FetchFailed \<Rightarrow> localClaims
      | HttpNotOk \<Rightarrow> localClaims
      | BodyNotJson \<Rightarrow> localClaims
      | Json status result \<Rightarrow>
          if status \<noteq> Some ''1'' \<or> result = ResultMissing then (200, [])
          else (case result of
                  ResultArray txs \<Rightarrow>
                    (case those (map toClaimEntry (filter claimFilter txs)) of
                       None \<Rightarrow> localClaims
                     | Some claims \<Rightarrow> (200, claims))
                | _ \<Rightarrow> localClaims))"

record TotalClaimed =
  totalClaimed :: string
  claimCount :: nat

definition numAdd :: "rat option \<Rightarrow> rat option \<Rightarrow> rat option" where
  "numAdd a b = (case a of None \<Rightarrow> None | Some x \<Rightarrow> map_option (\<lambda>y. x + y) b)"

fun reduceTotal :: "rat option \<Rightarrow> ArcscanTokenTransfer list \<Rightarrow> rat option option" where
  "reduceTotal acc [] = Some acc"
| "reduceTotal acc (tx # txs) =
     (case transferValue tx of None \<Rightarrow> None | Some v \<Rightarrow> reduceTotal (numAdd acc v) txs)"

definition getTotalClaimedRoute :: "FeedResponse \<Rightarrow> nat \<times> TotalClaimed" where
  "getTotalClaimedRoute feed =
     (let zero = (200, \<lparr> totalClaimed = ''0'', claimCount = 0 \<rparr>) in
      case feed of
        FetchFailed \<Rightarrow> zero
      | HttpNotOk \<Rightarrow> zero
      | BodyNotJson \<Rightarrow> zero
      | Json status result \<Rightarrow>
          if status \<noteq> Some ''1'' \<or> result = ResultMissing then zero
          else (case result of
                  ResultArray txs \<Rightarrow>
                    (let validClaims = filter claimFilter txs in
                     case reduceTotal (Some 0) validClaims of
                       None \<Rightarrow> zero
                     | Some tot \<Rightarrow>
                         (200, \<lparr> totalClaimed = toFixed 2 tot,
                                 claimCount = length validClaims \<rparr>))
                | _ \<Rightarrow> zero))"

text \<open>GET /api/claim-history/:walletAddress\<close>

definition getClaimHistoryByWalletRoute :: "MemStorage \<Rightarrow> string \<Rightarrow> nat \<times> ClaimHistory list" where
  "getClaimHistoryByWalletRoute storage addr = (200, getClaimHistoryByWallet addr storage)"

text \<open>
  Modelled from the spec: \<^verbatim>\<open>insertClaimHistorySchema\<close> of \<^verbatim>\<open>@shared/schema\<close>, which is
  not among the sources. The spec: "validates shape (non-empty address, amount parses as a
  non-negative fixed-point decimal); fails with ValidationError on malformed input".
  The request body is any JSON object, so each field may be absent.
\<close>

record ClaimRequestBody =
  bodyWalletAddress :: "string option"
  bodyAmount :: "string option"
  bodyTransactionHash :: "string option"

datatype error = ValidationError

text \<open>
  Modelled from the spec: a "non-negative fixed-point decimal" is read as decimal digits,
  optionally followed by a point and more decimal digits (\<^verbatim>\<open>@shared/schema\<close> is missing).
\<close>

definition isDecimalDigits :: "string \<Rightarrow> bool" where
  "isDecimalDigits ds = (ds \<noteq> [] \<and> list_all (isDigitIn 10) ds)"

definition isFixedPointDecimal :: "string \<Rightarrow> bool" where
  "isFixedPointDecimal a =
     (let ip = takeWhile (\<lambda>c. c \<noteq> CHR ''.'') a; rest = dropWhile (\<lambda>c. c \<noteq> CHR ''.'') a
      in isDecimalDigits ip \<and> (rest = [] \<or> isDecimalDigits (drop 1 rest)))"

text \<open>
  Modelled from the spec: \<^verbatim>\<open>insertClaimHistorySchema.parse\<close> (\<^verbatim>\<open>@shared/schema\<close> is missing)
  accepts a body with a non-empty address and a fixed-point amount, and otherwise throws the
  ValidationError.
\<close>

definition insertClaimHistorySchema_parse :: "ClaimRequestBody \<Rightarrow> error + InsertClaimHistory" where
  "insertClaimHistorySchema_parse body =
     (case (bodyWalletAddress body, bodyAmount body) of
        (Some w, Some a) \<Rightarrow>
          if w \<noteq> [] \<and> isFixedPointDecimal a
          then Inr \<lparr> walletAddress = w, amount = a, transactionHash = bodyTransactionHash body \<rparr>
          else Inl ValidationError
      | _ \<Rightarrow> Inl ValidationError)"

text \<open>POST /api/claim-history\<close>

datatype PostBody = CreatedClaim ClaimHistory | ErrorBody error

definition postClaimHistoryRoute ::
  "string \<Rightarrow> int \<Rightarrow> MemStorage \<Rightarrow> ClaimRequestBody \<Rightarrow> MemStorage \<times> nat \<times> PostBody" where
  "postClaimHistoryRoute uuid now storage body =
     (case insertClaimHistorySchema_parse body of
        Inl e \<Rightarrow> (storage, 400, ErrorBody e)
      | Inr validatedData \<Rightarrow>
          (let (storage', claim) = createClaimHistory uuid now validatedData storage
           in (storage', 200, CreatedClaim claim)))"


section \<open>The mining session: the App component of \<^verbatim>\<open>src/unnamed/part_002\<close> (console v1.0.5)\<close>

text \<open>
  The component's \<^verbatim>\<open>useState\<close> cells are the fields of a record. React batches the
  \<^verbatim>\<open>setState\<close> calls of one handler or timer callback, so each of them is one function on
  the record. Progress and rewards are JavaScript numbers, idealised as rationals; times are
  integers (\<^verbatim>\<open>Date.now()\<close> in milliseconds).

  What the component does to the outside (toasts, log lines, the contract write, the POST to
  the server, refetches) is appended to the field \<open>trace\<close>; the entry \<open>SessionStart\<close> marks
  a call of \<^verbatim>\<open>startMining\<close> that passed its guards.
\<close>

datatype MiningState = Idle | Mining | Paused | Completed

datatype LogType = Block | Share | Info | Reward

record MiningLog =
  log_id :: nat
  logType :: LogType
  message :: string

datatype Effect =
    Toast bool string string
  | Log LogType string
  | WriteContractClaim
  | PostClaimHistory InsertClaimHistory
  | RefetchClaimInfo
  | RefetchBalance
  | SessionStart

text \<open>
  What the \<^verbatim>\<open>useEffect\<close> of the mining timer captures when it runs: both intervals exist
  exactly while such a closure is installed.
\<close>

record TimerClosure =
  startTime :: int
  initialProgress :: rat
  remainingTime :: int
  endTime :: int
  rangeMin :: rat
  rangeMax :: rat

record AppState =
  miningState :: MiningState
  progress :: rat
  timeLeft :: int
  hashRate :: rat
  pausedProgress :: rat
  pausedTimeLeft :: int
  showStopWarning :: bool
  cpuEnabled :: bool
  gpuEnabled :: bool
  miningLogs :: "MiningLog list"
  blocksFound :: nat
  sharesFound :: nat
  canFindShares :: bool
  displayedReward :: rat
  logIdRef :: nat
  timers :: "TimerClosure option"
  trace :: "Effect list"

text \<open>What the hooks of wagmi hand to the component at the time of an event.\<close>

record Env =
  now :: int
  isConnected :: bool
  address :: "string option"
  totalClaimedOnChain :: int
  isConfirming :: bool

definition initialState :: AppState where
  "initialState =
     \<lparr> miningState = Idle, progress = 0, timeLeft = 600000, hashRate = 0,
       pausedProgress = 0, pausedTimeLeft = 0, showStopWarning = False,
       cpuEnabled = True, gpuEnabled = False, miningLogs = [], blocksFound = 0,
       sharesFound = 0, canFindShares = False, displayedReward = 0, logIdRef = 0,
       timers = None, trace = [] \<rparr>"

definition MAX_CLAIM_LIMIT :: int where
  "MAX_CLAIM_LIMIT = 2000 * 1000000"

definition hasReachedLimit :: "Env \<Rightarrow> bool" where
  "hasReachedLimit env = (totalClaimedOnChain env \<ge> MAX_CLAIM_LIMIT)"

definition getHashRateRange :: "AppState \<Rightarrow> rat \<times> rat" where
  "getHashRateRange s =
     (if cpuEnabled s \<and> gpuEnabled s then (400, 700)
      else if gpuEnabled s then (300, 500)
      else if cpuEnabled s then (100, 200)
      else (0, 0))"

definition emit :: "Effect \<Rightarrow> AppState \<Rightarrow> AppState" where
  "emit e s = s\<lparr> trace := trace s @ [e] \<rparr>"

text \<open>\<^verbatim>\<open>setMiningLogs(prev => [...prev.slice(-50), newLog])\<close>; the time stamp is left out.\<close>

definition addLog :: "LogType \<Rightarrow> string \<Rightarrow> AppState \<Rightarrow> AppState" where
  "addLog ty msg s =
     emit (Log ty msg)
       (s\<lparr> logIdRef := logIdRef s + 1,
           miningLogs := drop (length (miningLogs s) - 50) (miningLogs s)
                         @ [\<lparr> log_id = logIdRef s + 1, logType = ty, message = msg \<rparr>] \<rparr>)"

definition deviceNames :: "AppState \<Rightarrow> string" where
  "deviceNames s =
     (if cpuEnabled s then ''CPU'' else [])
     @ (if cpuEnabled s \<and> gpuEnabled s then '' + '' else [])
     @ (if gpuEnabled s then ''GPU'' else [])"

text \<open>
  The body of the \<^verbatim>\<open>useEffect\<close> with the dependencies \<^verbatim>\<open>[miningState, pausedProgress,
  pausedTimeLeft, cpuEnabled, gpuEnabled]\<close>: the clean-up of the previous run removes both
  intervals, and a run in state \<^verbatim>\<open>mining\<close> installs new ones.
\<close>

definition miningEffect :: "Env \<Rightarrow> AppState \<Rightarrow> AppState" where
  "miningEffect env s =
     (if miningState s = Mining then
        (let remaining0 = (if pausedTimeLeft s = 0 then 600000 else pausedTimeLeft s);
             c = \<lparr> startTime = now env,
                   initialProgress = pausedProgress s,
                   remainingTime = remaining0,
                   endTime = now env + remaining0,
                   rangeMin = fst (getHashRateRange s),
                   rangeMax = snd (getHashRateRange s) \<rparr>;
             s1 = (if miningLogs s = [] \<or> pausedProgress s = 0
                   then addLog Info (''Mining started with '' @ deviceNames s)
                          (addLog Info ''Connection established successfully''
                             (addLog Info ''Connecting to Arc Testnet Node...'' s))
                   else s)
         in s1\<lparr> timers := Some c \<rparr>)
      else s\<lparr> timers := None \<rparr>)"

text \<open>The callback of the 100 ms interval; \<open>rnd\<close> is the value of \<^verbatim>\<open>Math.random()\<close>.\<close>

definition timerTick :: "Env \<Rightarrow> rat \<Rightarrow> TimerClosure \<Rightarrow> AppState \<Rightarrow> AppState" where
  "timerTick env rnd c s =
     (let remaining = max 0 (endTime c - now env);
          elapsed = remainingTime c - remaining;
          additionalProgress = (of_int elapsed / 600000) * 100;
          p = min 100 (initialProgress c + additionalProgress);
          newHashRate = rangeMin c + rnd * (rangeMax c - rangeMin c);
          s1 = s\<lparr> timeLeft := remaining, progress := p, hashRate := newHashRate \<rparr>
      in if remaining \<le> 0 then
           emit (Toast False ''Mining Complete!'' ''200 USDC ready to claim.'')
             (addLog Reward ''Mining session completed! 200 USDC ready to claim''
                (s1\<lparr> miningState := Completed, progress := 100, displayedReward := 200 \<rparr>))
         else s1)"

text \<open>
  The callback of the 800 ms interval; \<open>rand\<close> is the first \<^verbatim>\<open>Math.random()\<close> and \<open>txt\<close>
  the random text of the log line (block hash, share number or hash rate).
\<close>

definition logTimerTick :: "rat \<Rightarrow> string \<Rightarrow> AppState \<Rightarrow> AppState" where
  "logTimerTick rand txt s =
     (if rand < 15 / 100 then
        (addLog Block (''Block found! Hash: 0x'' @ txt @ ''...'') s)
          \<lparr> blocksFound := blocksFound s + 1, canFindShares := True \<rparr>
      else if rand < 45 / 100 then
        (if canFindShares s then
           (addLog Share (''Share accepted #'' @ txt) s)
             \<lparr> sharesFound := sharesFound s + 1,
               displayedReward := min 200 (displayedReward s + (200 / 100) * (100 / 600)) \<rparr>
         else s)
      else if rand < 6 / 10 then addLog Info (''Hashrate: '' @ txt @ '' MH/s'') s
      else s)"

definition startMining :: "Env \<Rightarrow> AppState \<Rightarrow> AppState" where
  "startMining env s =
     (if hasReachedLimit env then
        emit (Toast True ''Limit Reached''
                ''Your wallet has reached the maximum claim limit of 2000 USDC.'') s
      else if \<not> cpuEnabled s \<and> \<not> gpuEnabled s then
        emit (Toast True ''No Mining Device'' ''Please enable CPU or GPU to start mining.'') s
      else
        emit SessionStart
          (s\<lparr> miningState := Mining, timeLeft := 600000, progress := 0, displayedReward := 0,
              pausedProgress := 0, pausedTimeLeft := 0, miningLogs := [], blocksFound := 0,
              sharesFound := 0, canFindShares := False \<rparr>))"

definition pauseMining :: "AppState \<Rightarrow> AppState" where
  "pauseMining s =
     addLog Info ''Mining paused by user''
       (s\<lparr> pausedProgress := progress s, pausedTimeLeft := timeLeft s, miningState := Paused \<rparr>)"

definition continueMining :: "AppState \<Rightarrow> AppState" where
  "continueMining s = (addLog Info ''Mining resumed'' s)\<lparr> miningState := Mining \<rparr>"

definition openStopWarning :: "AppState \<Rightarrow> AppState" where
  "openStopWarning s = s\<lparr> showStopWarning := True \<rparr>"

definition confirmStop :: "AppState \<Rightarrow> AppState" where
  "confirmStop s =
     emit (Toast True ''Mining Stopped'' ''All mined balance has been lost. Start again to mine.'')
       (s\<lparr> showStopWarning := False, miningState := Idle, progress := 0, timeLeft := 600000,
           displayedReward := 0, pausedProgress := 0, pausedTimeLeft := 0, miningLogs := [],
           blocksFound := 0, sharesFound := 0, canFindShares := False \<rparr>)"

definition cancelStopWarning :: "AppState \<Rightarrow> AppState" where
  "cancelStopWarning s = s\<lparr> showStopWarning := False \<rparr>"

definition handleClaim :: "Env \<Rightarrow> AppState \<Rightarrow> AppState" where
  "handleClaim env s =
     (if \<not> isConnected env \<or> address env = None then s else emit WriteContractClaim s)"

text \<open>
  The \<^verbatim>\<open>useEffect\<close> on \<^verbatim>\<open>[isConfirmed, hash, address]\<close>; \<open>hash\<close> is the transaction hash
  that \<^verbatim>\<open>useWriteContract\<close> returned, if any.
\<close>

definition confirmedEffect :: "Env \<Rightarrow> bool \<Rightarrow> string option \<Rightarrow> AppState \<Rightarrow> AppState" where
  "confirmedEffect env isConfirmed hash s =
     (case (isConfirmed, hash, address env) of
        (True, Some h, Some a) \<Rightarrow>
          emit RefetchBalance
            (emit RefetchClaimInfo
               ((emit (Toast False ''Claim Successful!'' ''200 USDC has been sent to your wallet.'')
                   (emit (PostClaimHistory \<lparr> walletAddress = a, amount = ''200.000000'',
                                              transactionHash = Some h \<rparr>) s))
                  \<lparr> miningState := Idle, displayedReward := 0, progress := 0,
                    pausedProgress := 0, pausedTimeLeft := 0, miningLogs := [],
                    canFindShares := False, blocksFound := 0, sharesFound := 0 \<rparr>))
      | _ \<Rightarrow> s)"

text \<open>The \<^verbatim>\<open>useEffect\<close> on \<^verbatim>\<open>[writeError]\<close>; the argument is \<^verbatim>\<open>writeError?.message\<close>.\<close>

definition writeErrorEffect :: "string option \<Rightarrow> AppState \<Rightarrow> AppState" where
  "writeErrorEffect writeError s =
     (case writeError of
        None \<Rightarrow> s
      | Some msg \<Rightarrow> emit (Toast True ''Claim Failed'' msg) s)"

text \<open>
  The events of the component. A button can be clicked only where the JSX renders it
  enabled: start in \<^verbatim>\<open>idle\<close> (disabled at the claim limit or with no device), pause and stop
  in \<^verbatim>\<open>mining\<close>, continue and stop in \<^verbatim>\<open>paused\<close>, claim in \<^verbatim>\<open>completed\<close> (disabled while
  confirming), the two buttons of the dialog while it is open, and the device toggles outside
  \<^verbatim>\<open>mining\<close> and \<^verbatim>\<open>paused\<close>; the whole console is rendered only when the wallet is connected.
  The interval callbacks fire only while the intervals exist.

  \<open>ReceiptFailed msg\<close> is the failure of a submitted transaction (it reverted, or waiting
  for its receipt failed): \<^verbatim>\<open>useWaitForTransactionReceipt\<close> reports the error \<open>msg\<close>, and
  \<^verbatim>\<open>isSuccess\<close> stays false. The component takes only \<^verbatim>\<open>isLoading\<close> and \<^verbatim>\<open>isSuccess\<close> from
  that hook, so no state cell changes, no dependency of an effect changes, and no code runs.
  \<^verbatim>\<open>writeError\<close> is not set either: \<^verbatim>\<open>useWriteContract\<close> has already returned the hash.
\<close>

datatype Event =
    ClickStart
  | ClickPause
  | ClickContinue
  | ClickStop
  | ClickConfirmStop
  | ClickCancelStop
  | ClickToggleCpu
  | ClickToggleGpu
  | ClickClaim
  | TimerFired rat
  | LogTimerFired rat string
  | ConfirmationChanged bool "string option"
  | WriteErrorChanged "string option"
  | ReceiptFailed string

definition dispatch :: "Env \<Rightarrow> Event \<Rightarrow> AppState \<Rightarrow> AppState" where
  "dispatch env ev s =
     (case ev of
        ClickStart \<Rightarrow>
          if isConnected env \<and> miningState s = Idle
             \<and> \<not> (hasReachedLimit env \<or> (\<not> cpuEnabled s \<and> \<not> gpuEnabled s))
          then startMining env s else s
      | ClickPause \<Rightarrow>
          if isConnected env \<and> miningState s = Mining then pauseMining s else s
      | ClickContinue \<Rightarrow>
          if isConnected env \<and> miningState s = Paused then continueMining s else s
      | ClickStop \<Rightarrow>
          if isConnected env \<and> (miningState s = Mining \<or> miningState s = Paused)
          then openStopWarning s else s
      | ClickConfirmStop \<Rightarrow> if showStopWarning s then confirmStop s else s
      | ClickCancelStop \<Rightarrow> if showStopWarning s then cancelStopWarning s else s
      | ClickToggleCpu \<Rightarrow>
          if isConnected env \<and> \<not> (miningState s = Mining \<or> miningState s = Paused)
          then s\<lparr> cpuEnabled := \<not> cpuEnabled s \<rparr> else s
      | ClickToggleGpu \<Rightarrow>
          if isConnected env \<and> \<not> (miningState s = Mining \<or> miningState s = Paused)
          then s\<lparr> gpuEnabled := \<not> gpuEnabled s \<rparr> else s
      | ClickClaim \<Rightarrow>
          if isConnected env \<and> miningState s = Completed \<and> \<not> isConfirming env
          then handleClaim env s else s
      | TimerFired rnd \<Rightarrow>
          (case timers s of None \<Rightarrow> s | Some c \<Rightarrow> timerTick env rnd c s)
      | LogTimerFired rand txt \<Rightarrow>
          (case timers s of None \<Rightarrow> s | Some c \<Rightarrow> logTimerTick rand txt s)
      | ConfirmationChanged isConfirmed hash \<Rightarrow> confirmedEffect env isConfirmed hash s
      | WriteErrorChanged writeError \<Rightarrow> writeErrorEffect writeError s
      | ReceiptFailed msg \<Rightarrow> s)"

definition effectDeps :: "AppState \<Rightarrow> MiningState \<times> rat \<times> int \<times> bool \<times> bool" where
  "effectDeps s = (miningState s, pausedProgress s, pausedTimeLeft s, cpuEnabled s, gpuEnabled s)"

text \<open>One event: the handler, then the render, which re-runs the effect if a dependency changed.\<close>

definition step :: "Env \<Rightarrow> Event \<Rightarrow> AppState \<Rightarrow> AppState" where
  "step env ev s =
     (let s' = dispatch env ev s
      in if effectDeps s' \<noteq> effectDeps s then miningEffect env s' else s')"

fun run :: "(Env \<times> Event) list \<Rightarrow> AppState \<Rightarrow> AppState" where
  "run [] s = s"
| "run ((env, ev) # evs) s = run evs (step env ev s)"


section \<open>The earlier App component of \<^verbatim>\<open>src/unnamed/part_000\<close> (console v1.0.4)\<close>

text \<open>
  This variant keeps the reward in the state cell \<^verbatim>\<open>accumulatedReward\<close>, calls the final
  state \<^verbatim>\<open>ready\<close>, and offers "Stop and Claim" in the dialog that pausing opens. Its names
  carry the suffix \<open>0\<close> here.
\<close>

datatype MiningState0 = Idle0 | Mining0 | Paused0 | Ready0

record TimerClosure0 =
  startTime0 :: int
  initialProgress0 :: rat
  initialReward0 :: rat
  remainingTime0 :: int
  endTime0 :: int

record AppState0 =
  miningState0 :: MiningState0
  progress0 :: rat
  timeLeft0 :: int
  hashRate0 :: rat
  accumulatedReward0 :: rat
  pausedProgress0 :: rat
  pausedReward0 :: rat
  pausedTimeLeft0 :: int
  showPauseDialog0 :: bool
  globalCooldown0 :: int
  timers0 :: "TimerClosure0 option"
  trace0 :: "Effect list"

definition initialState0 :: AppState0 where
  "initialState0 =
     \<lparr> miningState0 = Idle0, progress0 = 0, timeLeft0 = 600000, hashRate0 = 0,
       accumulatedReward0 = 0, pausedProgress0 = 0, pausedReward0 = 0, pausedTimeLeft0 = 0,
       showPauseDialog0 = False, globalCooldown0 = 0, timers0 = None, trace0 = [] \<rparr>"

definition emit0 :: "Effect \<Rightarrow> AppState0 \<Rightarrow> AppState0" where
  "emit0 e s = s\<lparr> trace0 := trace0 s @ [e] \<rparr>"

definition miningEffect0 :: "Env \<Rightarrow> AppState0 \<Rightarrow> AppState0" where
  "miningEffect0 env s =
     (if miningState0 s = Mining0 then
        (let remaining0 = (if pausedTimeLeft0 s = 0 then 600000 else pausedTimeLeft0 s)
         in s\<lparr> timers0 := Some \<lparr> startTime0 = now env,
                                  initialProgress0 = pausedProgress0 s,
                                  initialReward0 = pausedReward0 s,
                                  remainingTime0 = remaining0,
                                  endTime0 = now env + remaining0 \<rparr> \<rparr>)
      else s\<lparr> timers0 := None \<rparr>)"

definition timerTick0 :: "Env \<Rightarrow> rat \<Rightarrow> TimerClosure0 \<Rightarrow> AppState0 \<Rightarrow> AppState0" where
  "timerTick0 env rnd c s =
     (let remaining = max 0 (endTime0 c - now env);
          elapsed = remainingTime0 c - remaining;
          additionalProgress = (of_int elapsed / 600000) * 100;
          p = min 100 (initialProgress0 c + additionalProgress);
          accumulated = min 200 ((p / 100) * 200);
          s1 = s\<lparr> timeLeft0 := remaining, progress0 := p, accumulatedReward0 := accumulated,
                   hashRate0 := 45 + rnd * 20 \<rparr>
      in if remaining \<le> 0 then
           emit0 (Toast False ''Mining Complete!'' ''You mined a block. Ready to claim rewards.'')
             (s1\<lparr> miningState0 := Ready0, accumulatedReward0 := 200 \<rparr>)
         else s1)"

text \<open>The toast shows \<^verbatim>\<open>formatTime(globalCooldown)\<close>, which the model leaves out of the text.\<close>

definition startMining0 :: "AppState0 \<Rightarrow> AppState0" where
  "startMining0 s =
     (if globalCooldown0 s > 0 then
        emit0 (Toast True ''Cooldown Active'' ''Wait before mining again.'') s
      else
        emit0 SessionStart
          (s\<lparr> miningState0 := Mining0, timeLeft0 := 600000, progress0 := 0,
              accumulatedReward0 := 0, pausedProgress0 := 0, pausedReward0 := 0,
              pausedTimeLeft0 := 0 \<rparr>))"

definition pauseMining0 :: "AppState0 \<Rightarrow> AppState0" where
  "pauseMining0 s =
     s\<lparr> pausedProgress0 := progress0 s, pausedReward0 := accumulatedReward0 s,
        pausedTimeLeft0 := timeLeft0 s, miningState0 := Paused0, showPauseDialog0 := True \<rparr>"

definition continueMining0 :: "AppState0 \<Rightarrow> AppState0" where
  "continueMining0 s = s\<lparr> showPauseDialog0 := False, miningState0 := Mining0 \<rparr>"

definition stopAndClaim0 :: "AppState0 \<Rightarrow> AppState0" where
  "stopAndClaim0 s = s\<lparr> showPauseDialog0 := False, miningState0 := Ready0 \<rparr>"

definition handleClaim0 :: "Env \<Rightarrow> AppState0 \<Rightarrow> AppState0" where
  "handleClaim0 env s =
     (if \<not> isConnected env \<or> address env = None then s else emit0 WriteContractClaim s)"

definition confirmedEffect0 :: "Env \<Rightarrow> bool \<Rightarrow> string option \<Rightarrow> AppState0 \<Rightarrow> AppState0" where
  "confirmedEffect0 env isConfirmed hash s =
     (case (isConfirmed, hash, address env) of
        (True, Some h, Some a) \<Rightarrow>
          emit0 RefetchBalance
            (emit0 RefetchClaimInfo
               ((emit0 (Toast False ''Claim Successful!'' ''USDC has been sent to your wallet.'')
                   (emit0 (PostClaimHistory
                             \<lparr> walletAddress = a,
                               amount = toFixedRat 6 (accumulatedReward0 s),
                               transactionHash = Some h \<rparr>) s))
                  \<lparr> miningState0 := Idle0, accumulatedReward0 := 0, progress0 := 0,
                    pausedProgress0 := 0, pausedReward0 := 0, pausedTimeLeft0 := 0 \<rparr>))
      | _ \<Rightarrow> s)"

definition writeErrorEffect0 :: "string option \<Rightarrow> AppState0 \<Rightarrow> AppState0" where
  "writeErrorEffect0 writeError s =
     (case writeError of
        None \<Rightarrow> s
      | Some msg \<Rightarrow> emit0 (Toast True ''Claim Failed'' msg) s)"

text \<open>
  The \<^verbatim>\<open>useEffect\<close> on \<^verbatim>\<open>[nextClaimTime]\<close> (seconds, from the contract) and the callback of
  the one-second interval that counts the cooldown down.
\<close>

definition cooldownEffect0 :: "Env \<Rightarrow> int \<Rightarrow> AppState0 \<Rightarrow> AppState0" where
  "cooldownEffect0 env nextClaimTime s =
     (if nextClaimTime \<noteq> 0 then
        (let diff = nextClaimTime - now env div 1000
         in if diff > 0 then s\<lparr> globalCooldown0 := diff * 1000 \<rparr>
            else s\<lparr> globalCooldown0 := 0 \<rparr>)
      else s)"

definition cooldownTick0 :: "AppState0 \<Rightarrow> AppState0" where
  "cooldownTick0 s =
     (if globalCooldown0 s > 0 then s\<lparr> globalCooldown0 := max 0 (globalCooldown0 s - 1000) \<rparr>
      else s)"

text \<open>
  The buttons of this variant: start in \<^verbatim>\<open>idle\<close> (disabled during the cooldown), pause in
  \<^verbatim>\<open>mining\<close>, continue in \<^verbatim>\<open>paused\<close>, claim in \<^verbatim>\<open>ready\<close>, and "Continue Mining" and
  "Stop and Claim" in the dialog while it is open; the dialog can also be dismissed.
  \<open>ReceiptFailed0\<close> is the failure of a submitted transaction, as in the later variant:
  this component, too, takes only \<^verbatim>\<open>isLoading\<close> and \<^verbatim>\<open>isSuccess\<close> from the receipt hook.
\<close>

datatype Event0 =
    ClickStart0
  | ClickPause0
  | ClickContinue0
  | ClickDialogContinue0
  | ClickStopAndClaim0
  | DismissDialog0
  | ClickClaim0
  | TimerFired0 rat
  | ConfirmationChanged0 bool "string option"
  | WriteErrorChanged0 "string option"
  | NextClaimTimeChanged0 int
  | CooldownTimerFired0
  | ReceiptFailed0 string

definition dispatch0 :: "Env \<Rightarrow> Event0 \<Rightarrow> AppState0 \<Rightarrow> AppState0" where
  "dispatch0 env ev s =
     (case ev of
        ClickStart0 \<Rightarrow>
          if isConnected env \<and> miningState0 s = Idle0 \<and> \<not> globalCooldown0 s > 0
          then startMining0 s else s
      | ClickPause0 \<Rightarrow>
          if isConnected env \<and> miningState0 s = Mining0 then pauseMining0 s else s
      | ClickContinue0 \<Rightarrow>
          if isConnected env \<and> miningState0 s = Paused0 then continueMining0 s else s
      | ClickDialogContinue0 \<Rightarrow> if showPauseDialog0 s then continueMining0 s else s
      | ClickStopAndClaim0 \<Rightarrow> if showPauseDialog0 s then stopAndClaim0 s else s
      | DismissDialog0 \<Rightarrow> s\<lparr> showPauseDialog0 := False \<rparr>
      | ClickClaim0 \<Rightarrow>
          if isConnected env \<and> miningState0 s = Ready0 \<and> \<not> isConfirming env
          then handleClaim0 env s else s
      | TimerFired0 rnd \<Rightarrow>
          (case timers0 s of None \<Rightarrow> s | Some c \<Rightarrow> timerTick0 env rnd c s)
      | ConfirmationChanged0 isConfirmed hash \<Rightarrow> confirmedEffect0 env isConfirmed hash s
      | WriteErrorChanged0 writeError \<Rightarrow> writeErrorEffect0 writeError s
      | NextClaimTimeChanged0 t \<Rightarrow> cooldownEffect0 env t s
      | CooldownTimerFired0 \<Rightarrow> cooldownTick0 s
      | ReceiptFailed0 msg \<Rightarrow> s)"

definition effectDeps0 :: "AppState0 \<Rightarrow> MiningState0 \<times> rat \<times> rat \<times> int" where
  "effectDeps0 s = (miningState0 s, pausedProgress0 s, pausedReward0 s, pausedTimeLeft0 s)"

definition step0 :: "Env \<Rightarrow> Event0 \<Rightarrow> AppState0 \<Rightarrow> AppState0" where
  "step0 env ev s =
     (let s' = dispatch0 env ev s
      in if effectDeps0 s' \<noteq> effectDeps0 s then miningEffect0 env s' else s')"

fun run0 :: "(Env \<times> Event0) list \<Rightarrow> AppState0 \<Rightarrow> AppState0" where
  "run0 [] s = s"
| "run0 ((env, ev) # evs) s = run0 evs (step0 env ev s)"

section \<open>Notions of the specification\<close>

text \<open>
  "Case-insensitive" equality of two strings, said without \<open>toLowerCase\<close>: the same
  length, and position by position the same character or the two cases of one letter. The
  capital letters below 256 are A-Z and U+00C0 to U+00DE without U+00D7; the small letter is
  32 places higher.
\<close>

definition isCapital :: "char \<Rightarrow> bool" where
  "isCapital c =
     ((65 \<le> (of_char c :: int) \<and> (of_char c :: int) \<le> 90)
      \<or> (192 \<le> (of_char c :: int) \<and> (of_char c :: int) \<le> 222
          \<and> (of_char c :: int) \<noteq> 215))"

definition sameLetter :: "char \<Rightarrow> char \<Rightarrow> bool" where
  "sameLetter a b =
     (a = b \<or> (isCapital a \<and> (of_char b :: int) = of_char a + 32)
            \<or> (isCapital b \<and> (of_char a :: int) = of_char b + 32))"

definition equalsIgnoreCase :: "string \<Rightarrow> string \<Rightarrow> bool" where
  "equalsIgnoreCase a b = list_all2 sameLetter a b"

text \<open>
  The filter as the specification words it: the sender is the distributor, the token
  contract is the expected token (both case-insensitive), and the integer value is
  \<open>fixedClaimAmount * 10 ^ tokenDecimals\<close>.
\<close>

definition fixedClaimAmount :: int where
  "fixedClaimAmount = 200"

definition tokenDecimals :: nat where
  "tokenDecimals = 6"

definition countsAsClaim :: "ArcscanTokenTransfer \<Rightarrow> bool" where
  "countsAsClaim tx =
     (equalsIgnoreCase (txFrom tx) FAUCET_CONTRACT
      \<and> equalsIgnoreCase (case txContractAddress tx of None \<Rightarrow> [] | Some a \<Rightarrow> a) USDC_ADDRESS
      \<and> StringToBigInt (txValue tx) = Some (fixedClaimAmount * 10 ^ tokenDecimals))"

text \<open>The time stamp of a transfer converts to a date (\<^verbatim>\<open>toISOString\<close> does not throw).\<close>

definition hasValidTimeStamp :: "ArcscanTokenTransfer \<Rightarrow> bool" where
  "hasValidTimeStamp tx =
     (toISOString (map_option (\<lambda>n. n * 1000) (parseInt (txTimeStamp tx))) \<noteq> None)"

text \<open>
  The synthetic transfer of the specification's round trip: from the distributor, in the
  expected token, with the given value.
\<close>

definition syntheticTransfer :: "string \<Rightarrow> ArcscanTokenTransfer" where
  "syntheticTransfer v =
     \<lparr> txHash = ''0xabc0000000000001'', txFrom = FAUCET_CONTRACT,
       txTo = ''0x1111111111111111111111111111111111111111'', txValue = v,
       txTokenSymbol = ''USDC'', txTokenDecimal = ''6'', txTimeStamp = ''1700000000'',
       txContractAddress = Some USDC_ADDRESS \<rparr>"

text \<open>
  A feed failure in the words of the specification: the feed is unreachable, answers with a
  non-success status, or sends a malformed payload: a body that does not parse or is
  \<^verbatim>\<open>null\<close>, a \<^verbatim>\<open>status\<close> other than the string \<^verbatim>\<open>"1"\<close> (as in every JSON value that is not
  an object), or a \<^verbatim>\<open>result\<close> that is missing or not an array.
\<close>

fun feedFailure :: "FeedResponse \<Rightarrow> bool" where
  "feedFailure FetchFailed = True"
| "feedFailure HttpNotOk = True"
| "feedFailure BodyNotJson = True"
| "feedFailure (Json status result) =
     (status \<noteq> Some ''1'' \<or> (case result of ResultArray txs \<Rightarrow> False | _ \<Rightarrow> True))"

text \<open>
  The feed responses on which GET /api/claim-history reaches its \<^verbatim>\<open>catch\<close> block: a
  rejected fetch, a status that is not ok, a body that does not parse or is \<^verbatim>\<open>null\<close>, and,
  with status
  \<^verbatim>\<open>"1"\<close>, a result that is not an array or a matching transfer whose time stamp does not
  convert.
\<close>

fun reachesCatch :: "FeedResponse \<Rightarrow> bool" where
  "reachesCatch FetchFailed = True"
| "reachesCatch HttpNotOk = True"
| "reachesCatch BodyNotJson = True"
| "reachesCatch (Json status result) =
     (status = Some ''1'' \<and>
      (case result of
         ResultMissing \<Rightarrow> False
       | ResultNotArray \<Rightarrow> True
       | ResultArray txs \<Rightarrow> \<not> list_all hasValidTimeStamp (filter claimFilter txs)))"

definition newerFirst :: "ClaimHistory list \<Rightarrow> bool" where
  "newerFirst cs = sorted_wrt (\<lambda>a b. claimedAt a \<ge> claimedAt b) cs"

text \<open>
  A storage holding three locally reported claims, stored in the order of their ids; the
  second one is the latest and the first one the oldest.
\<close>

definition threeClaimStorage :: MemStorage where
  "threeClaimStorage =
     fst (createClaimHistory ''uuid-3'' 1700000002000
            \<lparr> walletAddress = ''0xAbC3'', amount = ''200.000000'', transactionHash = None \<rparr>
       (fst (createClaimHistory ''uuid-2'' 1700000003000
            \<lparr> walletAddress = ''0xAbC2'', amount = ''200.000000'',
              transactionHash = Some ''0xdef'' \<rparr>
         (fst (createClaimHistory ''uuid-1'' 1700000001000
            \<lparr> walletAddress = ''0xAbC1'', amount = ''200.000000'',
              transactionHash = Some ''0xabc'' \<rparr> [])))))"

text \<open>A storage holding one locally reported claim.\<close>

definition oneClaimStorage :: MemStorage where
  "oneClaimStorage =
     fst (createClaimHistory ''uuid-1'' 1700000000000
            \<lparr> walletAddress = ''0xAbC1'', amount = ''200.000000'',
              transactionHash = Some ''0xabc'' \<rparr> [])"

text \<open>
  What holds of every state the component reaches: the intervals exist exactly in state
  \<^verbatim>\<open>mining\<close>; the closure of the effect and, while mining or paused, the cells
  \<^verbatim>\<open>progress\<close> and \<^verbatim>\<open>timeLeft\<close> describe the same point of the ten minutes, and time is left;
  while paused the two snapshots equal these cells.
\<close>

definition closureOk :: "TimerClosure \<Rightarrow> bool" where
  "closureOk c =
     (initialProgress c * 6000 = 600000 - of_int (remainingTime c)
      \<and> 0 < remainingTime c
      \<and> endTime c = startTime c + remainingTime c)"

definition sessionInv :: "AppState \<Rightarrow> bool" where
  "sessionInv s =
     ((case timers s of
         None \<Rightarrow> miningState s \<noteq> Mining
       | Some c \<Rightarrow> miningState s = Mining \<and> closureOk c)
      \<and> (if miningState s = Mining \<or> miningState s = Paused
          then 0 < timeLeft s \<and> progress s * 6000 = 600000 - of_int (timeLeft s)
          else True)
      \<and> (if miningState s = Paused
          then pausedProgress s = progress s \<and> pausedTimeLeft s = timeLeft s
          else True))"

text \<open>
  The progress that the 100 ms callback computes at time \<open>t\<close> from the closure of the
  effect (the expression for \<^verbatim>\<open>p\<close> in both variants of the component).
\<close>

definition tickProgress :: "int \<Rightarrow> rat \<Rightarrow> int \<Rightarrow> int \<Rightarrow> rat" where
  "tickProgress endT ip rt t =
     min 100 (ip + (of_int (rt - max 0 (endT - t)) / 600000) * 100)"

text \<open>
  The specification's progress of a session that has run for \<open>t\<close> ms, with
  \<open>sessionDurationMs = 600000\<close>, and its reward as a function of the progress, with
  \<open>maxReward = 200\<close>.
\<close>

definition idealProgress :: "int \<Rightarrow> rat" where
  "idealProgress t = min 100 (of_int t / 600000 * 100)"

definition accruedReward :: "rat \<Rightarrow> rat" where
  "accruedReward p = min 200 ((p / 100) * 200)"

text \<open>The start button can be clicked and \<^verbatim>\<open>startMining\<close> passes its guards.\<close>

definition canStart :: "Env \<Rightarrow> AppState \<Rightarrow> bool" where
  "canStart env s =
     (isConnected env \<and> miningState s = Idle \<and> \<not> hasReachedLimit env
      \<and> (cpuEnabled s \<or> gpuEnabled s))"

definition canStart0 :: "Env \<Rightarrow> AppState0 \<Rightarrow> bool" where
  "canStart0 env s = (isConnected env \<and> miningState0 s = Idle0 \<and> \<not> globalCooldown0 s > 0)"

text \<open>
  A session is left running uninterrupted when only interval callbacks happen; the second
  argument bounds the clock readings of these events.
\<close>

fun isTimerEvent :: "Event \<Rightarrow> bool" where
  "isTimerEvent (TimerFired rnd) = True"
| "isTimerEvent (LogTimerFired rand txt) = True"
| "isTimerEvent ev = False"

fun uninterrupted :: "int \<Rightarrow> (Env \<times> Event) list \<Rightarrow> bool" where
  "uninterrupted T [] = True"
| "uninterrupted T ((env, ev) # evs) = (isTimerEvent ev \<and> now env \<le> T \<and> uninterrupted T evs)"

fun isTimerEvent0 :: "Event0 \<Rightarrow> bool" where
  "isTimerEvent0 (TimerFired0 rnd) = True"
| "isTimerEvent0 CooldownTimerFired0 = True"
| "isTimerEvent0 ev = False"

fun uninterrupted0 :: "int \<Rightarrow> (Env \<times> Event0) list \<Rightarrow> bool" where
  "uninterrupted0 T [] = True"
| "uninterrupted0 T ((env, ev) # evs) =
     (isTimerEvent0 ev \<and> now env \<le> T \<and> uninterrupted0 T evs)"

text \<open>How often a run takes the session from mining to its final state.\<close>

fun completions :: "(Env \<times> Event) list \<Rightarrow> AppState \<Rightarrow> nat" where
  "completions [] s = 0"
| "completions ((env, ev) # evs) s =
     (if miningState s = Mining \<and> miningState (step env ev s) = Completed then 1 else 0)
     + completions evs (step env ev s)"

fun completions0 :: "(Env \<times> Event0) list \<Rightarrow> AppState0 \<Rightarrow> nat" where
  "completions0 [] s = 0"
| "completions0 ((env, ev) # evs) s =
     (if miningState0 s = Mining0 \<and> miningState0 (step0 env ev s) = Ready0 then 1 else 0)
     + completions0 evs (step0 env ev s)"

text \<open>Some clock reading at or after the end of a session started at \<open>t0\<close>.\<close>

fun tickAtOrAfter :: "int \<Rightarrow> (Env \<times> Event) list \<Rightarrow> bool" where
  "tickAtOrAfter T [] = False"
| "tickAtOrAfter T ((env, TimerFired rnd) # evs) = (T \<le> now env \<or> tickAtOrAfter T evs)"
| "tickAtOrAfter T ((env, ev) # evs) = tickAtOrAfter T evs"

fun tickAtOrAfter0 :: "int \<Rightarrow> (Env \<times> Event0) list \<Rightarrow> bool" where
  "tickAtOrAfter0 T [] = False"
| "tickAtOrAfter0 T ((env, TimerFired0 rnd) # evs) = (T \<le> now env \<or> tickAtOrAfter0 T evs)"
| "tickAtOrAfter0 T ((env, ev) # evs) = tickAtOrAfter0 T evs"

text \<open>
  The ordering of the log stream: reading the trace from the left, a share line is allowed
  only when a block line has been seen since the last session start. The first argument says
  whether a block has been seen so far.
\<close>

fun sharesGated :: "bool \<Rightarrow> Effect list \<Rightarrow> bool" where
  "sharesGated seen [] = True"
| "sharesGated seen (SessionStart # es) = sharesGated False es"
| "sharesGated seen (Log Block msg # es) = sharesGated True es"
| "sharesGated seen (Log Share msg # es) = (seen \<and> sharesGated seen es)"
| "sharesGated seen (e # es) = sharesGated seen es"

fun blockSeen :: "bool \<Rightarrow> Effect list \<Rightarrow> bool" where
  "blockSeen seen [] = seen"
| "blockSeen seen (SessionStart # es) = blockSeen False es"
| "blockSeen seen (Log Block msg # es) = blockSeen True es"
| "blockSeen seen (e # es) = blockSeen seen es"

text \<open>A connected wallet below the claim limit, at clock reading \<open>t\<close>.\<close>

definition envAt :: "int \<Rightarrow> Env" where
  "envAt t =
     \<lparr> now = t, isConnected = True, address = Some ''0x1111111111111111111111111111111111111111'',
       totalClaimedOnChain = 0, isConfirming = False \<rparr>"

text \<open>
  The invariant behind the ordering: the trace read so far is well ordered, and while the flag
  \<^verbatim>\<open>canFindShares\<close> is set a block line has been seen since the last start.
\<close>

definition gateInv :: "bool \<Rightarrow> AppState \<Rightarrow> bool" where
  "gateInv b s =
     (sharesGated b (trace s) \<and> (if canFindShares s then blockSeen b (trace s) else True))"

section \<open>Helper lemmas: strings and sorting\<close>

lemma int_of_char_less: "(of_char c :: int) < 256"
  by (metis of_char_mod_256 pos_mod_bound zero_less_numeral)

lemma of_char_toLowerChar:
  "(of_char (toLowerChar c) :: int) =
     (if (65 \<le> (of_char c :: int) \<and> (of_char c :: int) \<le> 90)
         \<or> (192 \<le> (of_char c :: int) \<and> (of_char c :: int) \<le> 222
             \<and> (of_char c :: int) \<noteq> 215)
      then of_char c + 32 else of_char c)"
  using int_of_char_less [of c] by (simp add: toLowerChar_def Let_def of_char_of)

lemma toLowerChar_eq_iff: "toLowerChar a = toLowerChar b \<longleftrightarrow> sameLetter a b"
proof -
  have "toLowerChar a = toLowerChar b \<longleftrightarrow>
        (of_char (toLowerChar a) :: int) = of_char (toLowerChar b)"
    by (simp only: of_char_eq_iff)
  also have "\<dots> \<longleftrightarrow> sameLetter a b"
  proof -
    have ab: "a = b \<longleftrightarrow> (of_char a :: int) = of_char b"
      by (simp only: of_char_eq_iff)
    show ?thesis
      unfolding sameLetter_def isCapital_def of_char_toLowerChar ab
      by (auto split: if_splits)
  qed
  finally show ?thesis .
qed

lemma toLowerCase_eq_iff: "toLowerCase a = toLowerCase b \<longleftrightarrow> equalsIgnoreCase a b"
  unfolding toLowerCase_def equalsIgnoreCase_def
proof (induction a arbitrary: b)
  case Nil
  then show ?case by auto
next
  case (Cons x xs)
  then show ?case by (cases b) (auto simp: toLowerChar_eq_iff)
qed

lemma toLowerCase_Nil_iff: "[] = toLowerCase b \<longleftrightarrow> equalsIgnoreCase [] b"
  using toLowerCase_eq_iff [of "[]" b] by (simp add: toLowerCase_def)

lemma list_all_filter_self: "list_all P (filter P xs)"
  by (induction xs) auto

lemma newerFirst_sort: "newerFirst (sortByClaimedAtDesc cs)"
proof -
  have "sorted (map (\<lambda>c. - claimedAt c) (sort_key (\<lambda>c. - claimedAt c) cs))"
    by (rule sorted_sort_key)
  then show ?thesis
    by (simp add: newerFirst_def sortByClaimedAtDesc_def sorted_map)
qed

lemma set_sortByClaimedAtDesc: "set (sortByClaimedAtDesc cs) = set cs"
  by (simp add: sortByClaimedAtDesc_def)

lemma sorted_wrt_take_drop:
  "sorted_wrt P xs \<Longrightarrow> x \<in> set (take n xs) \<Longrightarrow> y \<in> set (drop n xs) \<Longrightarrow> P x y"
proof -
  assume "sorted_wrt P xs" and x: "x \<in> set (take n xs)" and y: "y \<in> set (drop n xs)"
  then have "sorted_wrt P (take n xs @ drop n xs)" by simp
  then show "P x y" using x y unfolding sorted_wrt_append by blast
qed

section \<open>The claim filter\<close>

lemma claimFilter_countsAsClaim: "claimFilter tx = countsAsClaim tx"
  by (cases "txContractAddress tx"; cases "StringToBigInt (txValue tx)")
     (auto simp: claimFilter_def countsAsClaim_def Let_def toLowerCase_eq_iff
        toLowerCase_Nil_iff TARGET_VALUE_def fixedClaimAmount_def tokenDecimals_def)

lemma filter_claimFilter: "filter claimFilter txs = filter countsAsClaim txs"
  by (rule filter_cong) (simp_all add: claimFilter_countsAsClaim)

lemma transferValue_counts: "countsAsClaim tx \<Longrightarrow> transferValue tx \<noteq> None"
  by (simp add: countsAsClaim_def transferValue_def Let_def)

lemma reduceTotal_counts:
  "list_all countsAsClaim txs \<Longrightarrow> reduceTotal acc txs \<noteq> None"
proof (induction txs arbitrary: acc)
  case Nil
  then show ?case by simp
next
  case (Cons tx txs)
  then obtain v where "transferValue tx = Some v"
    using transferValue_counts [of tx] by auto
  with Cons show ?case by simp
qed

lemma totalClaimed_count:
  "claimCount (snd (getTotalClaimedRoute (Json (Some ''1'') (ResultArray txs))))
     = length (filter countsAsClaim txs)"
proof -
  obtain t where "reduceTotal (Some 0) (filter countsAsClaim txs) = Some t"
    using reduceTotal_counts [OF list_all_filter_self] by blast
  then show ?thesis
    by (simp add: getTotalClaimedRoute_def filter_claimFilter Let_def)
qed

lemma toClaimEntry_Some:
  "countsAsClaim tx \<Longrightarrow> hasValidTimeStamp tx \<Longrightarrow>
     \<exists>c. toClaimEntry tx = Some c \<and> transactionHash c = Some (txHash tx)"
  using transferValue_counts [of tx]
  by (auto simp: toClaimEntry_def hasValidTimeStamp_def split: option.splits)

lemma toClaimEntry_None:
  "\<not> hasValidTimeStamp tx \<Longrightarrow> toClaimEntry tx = None"
  by (auto simp: toClaimEntry_def hasValidTimeStamp_def split: option.splits)

lemma those_entries:
  "list_all countsAsClaim txs \<Longrightarrow> list_all hasValidTimeStamp txs \<Longrightarrow>
     \<exists>cs. those (map toClaimEntry txs) = Some cs
          \<and> map transactionHash cs = map (\<lambda>tx. Some (txHash tx)) txs"
proof (induction txs)
  case Nil
  then show ?case by simp
next
  case (Cons tx txs)
  then obtain c where c: "toClaimEntry tx = Some c" "transactionHash c = Some (txHash tx)"
    using toClaimEntry_Some [of tx] by auto
  from Cons obtain cs where cs: "those (map toClaimEntry txs) = Some cs"
      "map transactionHash cs = map (\<lambda>tx. Some (txHash tx)) txs"
    by auto
  show ?case using c cs by simp
qed

lemma those_None:
  "\<not> list_all hasValidTimeStamp txs \<Longrightarrow> those (map toClaimEntry txs) = None"
proof (induction txs)
  case Nil
  then show ?case by simp
next
  case (Cons tx txs)
  show ?case
  proof (cases "hasValidTimeStamp tx")
    case True
    with Cons show ?thesis by (simp split: option.splits)
  next
    case False
    then show ?thesis by (simp add: toClaimEntry_None)
  qed
qed

lemma claimHistory_entries:
  assumes "list_all hasValidTimeStamp (filter countsAsClaim txs)"
  shows "map transactionHash (snd (getClaimHistoryRoute st (Json (Some ''1'') (ResultArray txs))))
           = map (\<lambda>tx. Some (txHash tx)) (filter countsAsClaim txs)"
proof -
  obtain cs where cs: "those (map toClaimEntry (filter countsAsClaim txs)) = Some cs"
      "map transactionHash cs = map (\<lambda>tx. Some (txHash tx)) (filter countsAsClaim txs)"
    using those_entries [OF list_all_filter_self assms] by auto
  then show ?thesis
    by (simp add: getClaimHistoryRoute_def filter_claimFilter Let_def)
qed

text \<open>
  C1. Both routes keep a transfer exactly when its sender is the distributor and its token
  contract the expected token, compared without regard to case, and its value parses to
  \<open>fixedClaimAmount * 10 ^ tokenDecimals\<close>; a value that does not parse excludes the
  transfer. GET /api/total-claimed counts these transfers, and GET /api/claim-history
  answers with one entry for each of them, in feed order, when their time stamps convert.
\<close>

theorem claim_filter_counts_exactly:
  "(claimFilter tx \<longleftrightarrow> countsAsClaim tx)
   \<and> (StringToBigInt (txValue tx) = None \<longrightarrow> \<not> claimFilter tx)
   \<and> claimCount (snd (getTotalClaimedRoute (Json (Some ''1'') (ResultArray txs))))
       = length (filter countsAsClaim txs)
   \<and> (list_all hasValidTimeStamp (filter countsAsClaim txs) \<longrightarrow>
        map transactionHash (snd (getClaimHistoryRoute st (Json (Some ''1'') (ResultArray txs))))
          = map (\<lambda>tx. Some (txHash tx)) (filter countsAsClaim txs))"
proof -
  have "StringToBigInt (txValue tx) = None \<longrightarrow> \<not> claimFilter tx"
    by (simp add: claimFilter_def Let_def)
  then show ?thesis
    using claimFilter_countsAsClaim totalClaimed_count claimHistory_entries by blast
qed

theorem claim_filter_counts_exactly_witness:
  "claimFilter (syntheticTransfer ''200000000'')
   \<and> \<not> claimFilter (syntheticTransfer ''199000000'')
   \<and> claimCount (snd (getTotalClaimedRoute (Json (Some ''1'')
        (ResultArray [syntheticTransfer ''200000000'', syntheticTransfer ''199000000''])))) = 1
   \<and> map transactionHash (snd (getClaimHistoryRoute [] (Json (Some ''1'')
        (ResultArray [syntheticTransfer ''200000000'', syntheticTransfer ''199000000'']))))
       = [Some ''0xabc0000000000001'']"
proof -
  have a: "countsAsClaim (syntheticTransfer ''200000000'')" by code_simp
  have b: "\<not> countsAsClaim (syntheticTransfer ''199000000'')" by code_simp
  have c: "hasValidTimeStamp (syntheticTransfer ''200000000'')" by code_simp
  have h: "txHash (syntheticTransfer ''200000000'') = ''0xabc0000000000001''"
    by (simp add: syntheticTransfer_def)
  show ?thesis
    using claim_filter_counts_exactly
            [of "syntheticTransfer ''200000000''"
                "[syntheticTransfer ''200000000'', syntheticTransfer ''199000000'']" "[]"]
          claim_filter_counts_exactly [of "syntheticTransfer ''199000000''" "[]" "[]"]
          a b c h
    by simp
qed

section \<open>Feed failures\<close>

lemma getClaimHistory_props:
  "length (getClaimHistory n st) \<le> n
   \<and> newerFirst (getClaimHistory n st)
   \<and> set (getClaimHistory n st) \<subseteq> set (map_values st)
   \<and> (\<forall>c \<in> set (getClaimHistory n st). \<forall>d \<in> set (map_values st).
         d \<notin> set (getClaimHistory n st) \<longrightarrow> claimedAt d \<le> claimedAt c)"
proof -
  let ?xs = "sortByClaimedAtDesc (map_values st)"
  have s: "sorted_wrt (\<lambda>a b. claimedAt a \<ge> claimedAt b) ?xs"
    using newerFirst_sort by (simp add: newerFirst_def)
  have 1: "length (take n ?xs) \<le> n" by simp
  have 2: "newerFirst (take n ?xs)"
    using s unfolding newerFirst_def by (rule sorted_wrt_take)
  have 3: "set (take n ?xs) \<subseteq> set (map_values st)"
    using set_take_subset [of n ?xs] by (simp add: set_sortByClaimedAtDesc)
  have 4: "claimedAt d \<le> claimedAt c"
    if c: "c \<in> set (take n ?xs)" and d: "d \<in> set (map_values st)" "d \<notin> set (take n ?xs)"
    for c d
  proof -
    have "set ?xs = set (take n ?xs) \<union> set (drop n ?xs)"
      by (metis append_take_drop_id set_append)
    then have "d \<in> set (drop n ?xs)"
      using d by (simp add: set_sortByClaimedAtDesc)
    then show ?thesis using sorted_wrt_take_drop [OF s c] by simp
  qed
  show ?thesis
    unfolding getClaimHistory_def using 1 2 3 4 by blast
qed

lemma claimHistory_catch:
  "reachesCatch feed \<Longrightarrow> getClaimHistoryRoute st feed = (200, getClaimHistory 50 st)"
proof (cases feed)
  case (Json status result)
  assume r: "reachesCatch feed"
  show ?thesis
  proof (cases result)
    case ResultMissing
    with r Json show ?thesis by simp
  next
    case ResultNotArray
    with r Json show ?thesis by (simp add: getClaimHistoryRoute_def)
  next
    case (ResultArray txs)
    with r Json have "those (map toClaimEntry (filter claimFilter txs)) = None"
      by (simp add: those_None)
    with r Json ResultArray show ?thesis by (simp add: getClaimHistoryRoute_def)
  qed
qed (simp_all add: getClaimHistoryRoute_def)

lemma count_list_insort_key:
  "count_list (insort_key f x xs) c = count_list (x # xs) c"
  by (induction xs) auto

lemma count_list_sort_key: "count_list (sort_key f xs) c = count_list xs c"
  by (induction xs) (auto simp: count_list_insort_key)

lemma count_list_take: "count_list (take n xs) c \<le> count_list xs c"
proof (induction xs arbitrary: n)
  case Nil
  then show ?case by simp
next
  case (Cons x xs)
  show ?case
  proof (cases n)
    case 0
    then show ?thesis by simp
  next
    case (Suc m)
    then show ?thesis using Cons [of m] by simp
  qed
qed

lemma getClaimHistory_complete:
  "length (getClaimHistory n st) = min n (length st)
   \<and> (\<forall>c. count_list (getClaimHistory n st) c \<le> count_list (map_values st) c)"
proof -
  have "length (getClaimHistory n st) = min n (length st)"
    by (simp add: getClaimHistory_def sortByClaimedAtDesc_def map_values_def min.commute)
  moreover have "count_list (getClaimHistory n st) c \<le> count_list (map_values st) c" for c
    using count_list_take [of n "sortByClaimedAtDesc (map_values st)" c]
    by (simp add: getClaimHistory_def sortByClaimedAtDesc_def count_list_sort_key)
  ultimately show ?thesis by blast
qed

text \<open>
  C5, as the code has it. When the fetch is rejected, the status is not ok, or the payload
  cannot be processed (the body does not parse as JSON or is \<^verbatim>\<open>null\<close>, the result is not an
  array, or a matching transfer has a time stamp that does not convert), GET
  /api/claim-history answers 200 with the 50 latest locally stored entries, latest first: as
  many entries as are stored, up to 50, each at most as often as it is stored, and none that
  is left out is later than one that is listed. A payload whose \<^verbatim>\<open>status\<close> is not \<^verbatim>\<open>"1"\<close>
  or whose \<^verbatim>\<open>result\<close> is missing is answered with the empty list, not with the local
  entries.
\<close>

theorem claim_history_fallback:
  "(reachesCatch feed \<longrightarrow>
      getClaimHistoryRoute st feed = (200, getClaimHistory 50 st)
      \<and> length (getClaimHistory 50 st) \<le> 50
      \<and> newerFirst (getClaimHistory 50 st)
      \<and> set (getClaimHistory 50 st) \<subseteq> set (map_values st)
      \<and> (\<forall>c \<in> set (getClaimHistory 50 st). \<forall>d \<in> set (map_values st).
            d \<notin> set (getClaimHistory 50 st) \<longrightarrow> claimedAt d \<le> claimedAt c)
      \<and> length (getClaimHistory 50 st) = min 50 (length st)
      \<and> (\<forall>c. count_list (getClaimHistory 50 st) c \<le> count_list (map_values st) c))
   \<and> (status \<noteq> Some ''1'' \<or> result = ResultMissing \<longrightarrow>
        getClaimHistoryRoute st (Json status result) = (200, []))"
proof -
  have "status \<noteq> Some ''1'' \<or> result = ResultMissing \<longrightarrow>
        getClaimHistoryRoute st (Json status result) = (200, [])"
    by (simp add: getClaimHistoryRoute_def)
  then show ?thesis
    using claimHistory_catch [of feed st] getClaimHistory_props [of 50 st]
      getClaimHistory_complete [of 50 st]
    by blast
qed

theorem claim_history_fallback_witness:
  "reachesCatch HttpNotOk
   \<and> getClaimHistoryRoute threeClaimStorage HttpNotOk
       = (200, [\<lparr> walletAddress = ''0xAbC2'', amount = ''200.000000'',
                   transactionHash = Some ''0xdef'', claim_id = ''uuid-2'',
                   claimedAt = 1700000003000 \<rparr>,
                 \<lparr> walletAddress = ''0xAbC3'', amount = ''200.000000'',
                   transactionHash = None, claim_id = ''uuid-3'',
                   claimedAt = 1700000002000 \<rparr>,
                 \<lparr> walletAddress = ''0xAbC1'', amount = ''200.000000'',
                   transactionHash = Some ''0xabc'', claim_id = ''uuid-1'',
                   claimedAt = 1700000001000 \<rparr>])
   \<and> length (snd (getClaimHistoryRoute threeClaimStorage HttpNotOk)) = 3
   \<and> getClaimHistoryRoute threeClaimStorage (Json None ResultMissing) = (200, [])
   \<and> getClaimHistoryRoute oneClaimStorage BodyNotJson = (200, map_values oneClaimStorage)"
proof -
  have a: "getClaimHistory 50 threeClaimStorage
       = [\<lparr> walletAddress = ''0xAbC2'', amount = ''200.000000'',
                   transactionHash = Some ''0xdef'', claim_id = ''uuid-2'',
                   claimedAt = 1700000003000 \<rparr>,
                 \<lparr> walletAddress = ''0xAbC3'', amount = ''200.000000'',
                   transactionHash = None, claim_id = ''uuid-3'',
                   claimedAt = 1700000002000 \<rparr>,
                 \<lparr> walletAddress = ''0xAbC1'', amount = ''200.000000'',
                   transactionHash = Some ''0xabc'', claim_id = ''uuid-1'',
                   claimedAt = 1700000001000 \<rparr>]"
    by code_simp
  have b: "getClaimHistory 50 oneClaimStorage = map_values oneClaimStorage" by code_simp
  have l: "length threeClaimStorage = 3" by code_simp
  show ?thesis
    using claim_history_fallback [of HttpNotOk threeClaimStorage None ResultMissing]
          claim_history_fallback [of BodyNotJson oneClaimStorage None ResultMissing]
          a b l
    by simp
qed

theorem claim_history_status_counterexample:
  "feedFailure (Json (Some ''0'') ResultMissing)
   \<and> getClaimHistory 50 oneClaimStorage \<noteq> []
   \<and> getClaimHistoryRoute oneClaimStorage (Json (Some ''0'') ResultMissing)
       \<noteq> (200, getClaimHistory 50 oneClaimStorage)"
  by code_simp

text \<open>
  C6, as the code has it. On every feed failure GET /api/total-claimed answers 200 with
  \<^verbatim>\<open>{totalClaimed: "0", claimCount: 0}\<close>; the total is the string \<^verbatim>\<open>"0"\<close>. The string
  \<^verbatim>\<open>"0.00"\<close> is what \<^verbatim>\<open>toFixed(2)\<close> gives on a reachable feed with no matching transfer.
\<close>

theorem total_claimed_feed_failure:
  "feedFailure feed \<Longrightarrow>
     getTotalClaimedRoute feed = (200, \<lparr> totalClaimed = ''0'', claimCount = 0 \<rparr>)"
proof (cases feed)
  case (Json status result)
  assume "feedFailure feed"
  with Json show ?thesis
    by (cases result) (auto simp: getTotalClaimedRoute_def Let_def)
qed (simp_all add: getTotalClaimedRoute_def)

theorem total_claimed_feed_failure_witness:
  "feedFailure FetchFailed
   \<and> getTotalClaimedRoute FetchFailed = (200, \<lparr> totalClaimed = ''0'', claimCount = 0 \<rparr>)"
  using total_claimed_feed_failure [of FetchFailed] by simp

theorem total_claimed_zero_counterexample:
  "feedFailure FetchFailed
   \<and> getTotalClaimedRoute FetchFailed \<noteq> (200, \<lparr> totalClaimed = ''0.00'', claimCount = 0 \<rparr>)"
  by (simp add: getTotalClaimedRoute_def)

section \<open>Reporting a local claim\<close>

lemma map_set_member: "(k, v) \<in> set (map_set k v m)"
  by (induction m) auto

lemma map_set_fresh: "k \<notin> fst ` set m \<Longrightarrow> map_set k v m = m @ [(k, v)]"
  by (induction m) auto

lemma byWallet_member:
  "c \<in> set (map_values m) \<Longrightarrow> equalsIgnoreCase addr (walletAddress c) \<Longrightarrow>
     c \<in> set (getClaimHistoryByWallet addr m)"
  by (simp add: getClaimHistoryByWallet_def set_sortByClaimedAtDesc toLowerCase_eq_iff [symmetric])

lemma byWallet_matches:
  "c \<in> set (getClaimHistoryByWallet addr m) \<Longrightarrow> equalsIgnoreCase (walletAddress c) addr"
  by (simp add: getClaimHistoryByWallet_def set_sortByClaimedAtDesc toLowerCase_eq_iff [symmetric])

text \<open>
  C7. POST /api/claim-history with an empty wallet address answers 400 with an error body and
  leaves the storage as it was. With a non-empty address and a fixed-point amount it answers
  200 with the new entry, which carries the generated id and the current time; with a fresh
  id the entry is appended to the stored ones. GET /api/claim-history/:walletAddress for an
  address equal up to case then contains the entry, lists latest first, and lists only
  entries of that address.
\<close>

theorem record_local_claim:
  "(bodyWalletAddress body = Some [] \<longrightarrow>
      postClaimHistoryRoute uuid t st body = (st, 400, ErrorBody ValidationError))
   \<and> (bodyWalletAddress body = Some w \<and> w \<noteq> [] \<and> bodyAmount body = Some a
        \<and> isFixedPointDecimal a \<longrightarrow>
       (let claim = \<lparr> walletAddress = w, amount = a,
                      transactionHash = bodyTransactionHash body,
                      claim_id = uuid, claimedAt = t \<rparr>;
            st' = fst (postClaimHistoryRoute uuid t st body)
        in snd (postClaimHistoryRoute uuid t st body) = (200, CreatedClaim claim)
           \<and> (uuid \<notin> fst ` set st \<longrightarrow> map_values st' = map_values st @ [claim])
           \<and> (equalsIgnoreCase addr w \<longrightarrow>
                 claim \<in> set (snd (getClaimHistoryByWalletRoute st' addr)))
           \<and> newerFirst (snd (getClaimHistoryByWalletRoute st' addr))
           \<and> (\<forall>c \<in> set (snd (getClaimHistoryByWalletRoute st' addr)).
                 equalsIgnoreCase (walletAddress c) addr)))"
proof -
  have bad: "postClaimHistoryRoute uuid t st body = (st, 400, ErrorBody ValidationError)"
    if "bodyWalletAddress body = Some []"
    using that
    by (simp add: postClaimHistoryRoute_def insertClaimHistorySchema_parse_def
          split: option.splits)
  have good: "let claim = \<lparr> walletAddress = w, amount = a,
                      transactionHash = bodyTransactionHash body,
                      claim_id = uuid, claimedAt = t \<rparr>;
            st' = fst (postClaimHistoryRoute uuid t st body)
        in snd (postClaimHistoryRoute uuid t st body) = (200, CreatedClaim claim)
           \<and> (uuid \<notin> fst ` set st \<longrightarrow> map_values st' = map_values st @ [claim])
           \<and> (equalsIgnoreCase addr w \<longrightarrow>
                 claim \<in> set (snd (getClaimHistoryByWalletRoute st' addr)))
           \<and> newerFirst (snd (getClaimHistoryByWalletRoute st' addr))
           \<and> (\<forall>c \<in> set (snd (getClaimHistoryByWalletRoute st' addr)).
                 equalsIgnoreCase (walletAddress c) addr)"
    if ok: "bodyWalletAddress body = Some w" "w \<noteq> []" "bodyAmount body = Some a"
       "isFixedPointDecimal a"
  proof -
    let ?claim = "\<lparr> walletAddress = w, amount = a,
                      transactionHash = bodyTransactionHash body,
                      claim_id = uuid, claimedAt = t \<rparr>"
    have post: "postClaimHistoryRoute uuid t st body
                  = (map_set uuid ?claim st, 200, CreatedClaim ?claim)"
      using ok
      by (simp add: postClaimHistoryRoute_def insertClaimHistorySchema_parse_def
            createClaimHistory_def Let_def)
    have mem: "?claim \<in> set (map_values (map_set uuid ?claim st))"
      using map_set_member [of uuid ?claim st] by (force simp: map_values_def)
    have 1: "uuid \<notin> fst ` set st \<longrightarrow>
               map_values (map_set uuid ?claim st) = map_values st @ [?claim]"
      by (simp add: map_set_fresh map_values_def)
    have 2: "equalsIgnoreCase addr w \<longrightarrow>
               ?claim \<in> set (getClaimHistoryByWallet addr (map_set uuid ?claim st))"
      using byWallet_member [OF mem, of addr] by simp
    have 3: "newerFirst (getClaimHistoryByWallet addr (map_set uuid ?claim st))"
      by (simp add: getClaimHistoryByWallet_def newerFirst_sort)
    have 4: "\<forall>c \<in> set (getClaimHistoryByWallet addr (map_set uuid ?claim st)).
               equalsIgnoreCase (walletAddress c) addr"
      using byWallet_matches by blast
    show ?thesis
      unfolding Let_def post getClaimHistoryByWalletRoute_def fst_conv snd_conv
      using 1 2 3 4 by blast
  qed
  show ?thesis using bad good by blast
qed

theorem record_local_claim_witness:
  "postClaimHistoryRoute ''uuid-2'' 1700000600000 oneClaimStorage
      \<lparr> bodyWalletAddress = Some [], bodyAmount = Some ''200.000000'',
        bodyTransactionHash = None \<rparr>
     = (oneClaimStorage, 400, ErrorBody ValidationError)
   \<and> \<lparr> walletAddress = ''0xAbC1'', amount = ''200.000000'', transactionHash = None,
        claim_id = ''uuid-2'', claimedAt = 1700000600000 \<rparr>
      \<in> set (snd (getClaimHistoryByWalletRoute
           (fst (postClaimHistoryRoute ''uuid-2'' 1700000600000 oneClaimStorage
                  \<lparr> bodyWalletAddress = Some ''0xAbC1'', bodyAmount = Some ''200.000000'',
                    bodyTransactionHash = None \<rparr>))
           ''0xabc1''))"
proof -
  have a: "isFixedPointDecimal ''200.000000''" by code_simp
  have b: "equalsIgnoreCase ''0xabc1'' ''0xAbC1''" by code_simp
  show ?thesis
    using record_local_claim
            [of "\<lparr> bodyWalletAddress = Some [], bodyAmount = Some ''200.000000'',
                   bodyTransactionHash = None \<rparr>"
                "''uuid-2''" 1700000600000 oneClaimStorage]
          record_local_claim
            [of "\<lparr> bodyWalletAddress = Some ''0xAbC1'', bodyAmount = Some ''200.000000'',
                   bodyTransactionHash = None \<rparr>"
                "''uuid-2''" 1700000600000 oneClaimStorage "''0xAbC1''" "''200.000000''"
                "''0xabc1''"]
          a b
    by (simp add: Let_def)
qed

section \<open>The session timer: what every reachable state satisfies\<close>

lemma tick_arith:
  fixes ip :: rat
  assumes "ip * 6000 = 600000 - of_int rt" "0 < r"
  shows "min 100 (ip + of_int (rt - r) / 600000 * 100) * 6000 = 600000 - of_int r"
proof -
  have ip: "ip = (600000 - of_int rt) / 6000"
    using assms(1) by (simp add: field_simps)
  have e: "ip + of_int (rt - r) / 600000 * 100 = (600000 - of_int r) / 6000"
    unfolding ip by (simp add: field_simps)
  have l: "(600000 - of_int r) / 6000 < (100 :: rat)"
    using assms(2) by simp
  have "min 100 ((600000 - of_int r) / 6000) = (600000 - of_int r) / (6000 :: rat)"
    using l by (simp only: min_def) simp
  then show ?thesis
    unfolding e by simp
qed

lemmas handler_defs =
  startMining_def pauseMining_def continueMining_def openStopWarning_def confirmStop_def
  cancelStopWarning_def handleClaim_def confirmedEffect_def writeErrorEffect_def
  timerTick_def logTimerTick_def addLog_def emit_def

lemma dispatch_simps:
  "dispatch env ClickStart s =
     (if isConnected env \<and> miningState s = Idle
         \<and> \<not> (hasReachedLimit env \<or> (\<not> cpuEnabled s \<and> \<not> gpuEnabled s))
      then startMining env s else s)"
  "dispatch env ClickPause s =
     (if isConnected env \<and> miningState s = Mining then pauseMining s else s)"
  "dispatch env ClickContinue s =
     (if isConnected env \<and> miningState s = Paused then continueMining s else s)"
  "dispatch env ClickStop s =
     (if isConnected env \<and> (miningState s = Mining \<or> miningState s = Paused)
      then openStopWarning s else s)"
  "dispatch env ClickConfirmStop s = (if showStopWarning s then confirmStop s else s)"
  "dispatch env ClickCancelStop s = (if showStopWarning s then cancelStopWarning s else s)"
  "dispatch env ClickToggleCpu s =
     (if isConnected env \<and> \<not> (miningState s = Mining \<or> miningState s = Paused)
      then s\<lparr> cpuEnabled := \<not> cpuEnabled s \<rparr> else s)"
  "dispatch env ClickToggleGpu s =
     (if isConnected env \<and> \<not> (miningState s = Mining \<or> miningState s = Paused)
      then s\<lparr> gpuEnabled := \<not> gpuEnabled s \<rparr> else s)"
  "dispatch env ClickClaim s =
     (if isConnected env \<and> miningState s = Completed \<and> \<not> isConfirming env
      then handleClaim env s else s)"
  "dispatch env (TimerFired rnd) s =
     (case timers s of None \<Rightarrow> s | Some c \<Rightarrow> timerTick env rnd c s)"
  "dispatch env (LogTimerFired rand txt) s =
     (case timers s of None \<Rightarrow> s | Some c \<Rightarrow> logTimerTick rand txt s)"
  "dispatch env (ConfirmationChanged isConfirmed hash) s = confirmedEffect env isConfirmed hash s"
  "dispatch env (WriteErrorChanged writeError) s = writeErrorEffect writeError s"
  "dispatch env (ReceiptFailed msg) s = s"
  by (simp_all add: dispatch_def)

text \<open>The effect touches only the intervals, the log and the trace.\<close>

lemma effect_fields:
  "miningState (miningEffect env s) = miningState s"
  "progress (miningEffect env s) = progress s"
  "timeLeft (miningEffect env s) = timeLeft s"
  "pausedProgress (miningEffect env s) = pausedProgress s"
  "pausedTimeLeft (miningEffect env s) = pausedTimeLeft s"
  "displayedReward (miningEffect env s) = displayedReward s"
  "canFindShares (miningEffect env s) = canFindShares s"
  by (simp_all add: miningEffect_def Let_def addLog_def emit_def)

lemma step_fields:
  "miningState (step env ev s) = miningState (dispatch env ev s)"
  "progress (step env ev s) = progress (dispatch env ev s)"
  "timeLeft (step env ev s) = timeLeft (dispatch env ev s)"
  "pausedProgress (step env ev s) = pausedProgress (dispatch env ev s)"
  "pausedTimeLeft (step env ev s) = pausedTimeLeft (dispatch env ev s)"
  "displayedReward (step env ev s) = displayedReward (dispatch env ev s)"
  "canFindShares (step env ev s) = canFindShares (dispatch env ev s)"
  by (simp_all add: step_def Let_def effect_fields)

lemma effect_timers:
  "timers (miningEffect env s) =
     (if miningState s = Mining
      then Some \<lparr> startTime = now env, initialProgress = pausedProgress s,
                  remainingTime = (if pausedTimeLeft s = 0 then 600000 else pausedTimeLeft s),
                  endTime = now env + (if pausedTimeLeft s = 0 then 600000 else pausedTimeLeft s),
                  rangeMin = fst (getHashRateRange s), rangeMax = snd (getHashRateRange s) \<rparr>
      else None)"
  by (simp add: miningEffect_def Let_def)

lemma dispatch_timers: "timers (dispatch env ev s) = timers s"
  by (cases ev) (simp_all add: dispatch_simps handler_defs Let_def split: option.splits bool.splits)

lemma step_timers:
  "timers (step env ev s) =
     (if effectDeps (dispatch env ev s) \<noteq> effectDeps s
      then timers (miningEffect env (dispatch env ev s)) else timers s)"
  by (simp add: step_def Let_def dispatch_timers)

lemma inv_fields:
  "sessionInv s \<longleftrightarrow>
     ((case timers s of None \<Rightarrow> miningState s \<noteq> Mining
        | Some c \<Rightarrow> miningState s = Mining \<and> closureOk c)
      \<and> (miningState s = Mining \<or> miningState s = Paused \<longrightarrow>
            0 < timeLeft s \<and> progress s * 6000 = 600000 - of_int (timeLeft s))
      \<and> (miningState s = Paused \<longrightarrow>
            pausedProgress s = progress s \<and> pausedTimeLeft s = timeLeft s))"
  by (simp add: sessionInv_def)

lemma inv_initial: "sessionInv initialState"
  by (simp add: sessionInv_def initialState_def)

lemma inv_mining:
  assumes "sessionInv s" "miningState s = Mining"
  obtains c where "timers s = Some c" "closureOk c" "0 < timeLeft s"
    "progress s * 6000 = 600000 - of_int (timeLeft s)"
  using assms by (cases "timers s") (simp_all add: sessionInv_def)

lemma inv_paused:
  assumes "sessionInv s" "miningState s = Paused"
  shows "timers s = None" "0 < timeLeft s"
    "progress s * 6000 = 600000 - of_int (timeLeft s)"
    "pausedProgress s = progress s" "pausedTimeLeft s = timeLeft s"
  using assms by (cases "timers s"; simp add: sessionInv_def)+

lemma inv_resting:
  assumes "sessionInv s" "miningState s \<noteq> Mining"
  shows "timers s = None"
  using assms by (cases "timers s") (simp_all add: sessionInv_def)

lemma invI_resting:
  assumes "timers s = None" "miningState s = Idle \<or> miningState s = Completed"
  shows "sessionInv s"
  using assms by (auto simp: sessionInv_def)

lemma step_pause_fields:
  assumes "isConnected env" "miningState s = Mining"
  shows "miningState (step env ClickPause s) = Paused"
    "progress (step env ClickPause s) = progress s"
    "timeLeft (step env ClickPause s) = timeLeft s"
    "pausedProgress (step env ClickPause s) = progress s"
    "pausedTimeLeft (step env ClickPause s) = timeLeft s"
    "timers (step env ClickPause s) = None"
    "displayedReward (step env ClickPause s) = displayedReward s"
  using assms
  by (simp_all add: step_fields step_timers effect_timers dispatch_simps pauseMining_def
        addLog_def emit_def effectDeps_def)

lemma inv_pause:
  assumes "sessionInv s"
  shows "sessionInv (step env ClickPause s)"
proof (cases "isConnected env \<and> miningState s = Mining")
  case True
  then have g: "isConnected env" "miningState s = Mining" by simp_all
  from assms g(2) obtain c where "0 < timeLeft s"
      "progress s * 6000 = 600000 - of_int (timeLeft s)"
    by (rule inv_mining)
  then show ?thesis
    unfolding inv_fields step_pause_fields [OF g] by simp
next
  case False
  then have "dispatch env ClickPause s = s" by (auto simp: dispatch_simps)
  then show ?thesis using assms by (simp add: step_def)
qed

lemma step_continue_fields:
  assumes "isConnected env" "miningState s = Paused"
  shows "miningState (step env ClickContinue s) = Mining"
    "progress (step env ClickContinue s) = progress s"
    "timeLeft (step env ClickContinue s) = timeLeft s"
    "pausedProgress (step env ClickContinue s) = pausedProgress s"
    "pausedTimeLeft (step env ClickContinue s) = pausedTimeLeft s"
    "timers (step env ClickContinue s) =
       Some \<lparr> startTime = now env, initialProgress = pausedProgress s,
              remainingTime = (if pausedTimeLeft s = 0 then 600000 else pausedTimeLeft s),
              endTime = now env + (if pausedTimeLeft s = 0 then 600000 else pausedTimeLeft s),
              rangeMin = fst (getHashRateRange s), rangeMax = snd (getHashRateRange s) \<rparr>"
    "displayedReward (step env ClickContinue s) = displayedReward s"
  using assms
  by (simp_all add: step_fields step_timers effect_timers dispatch_simps continueMining_def
        addLog_def emit_def effectDeps_def getHashRateRange_def)

lemma inv_continue:
  assumes "sessionInv s"
  shows "sessionInv (step env ClickContinue s)"
proof (cases "isConnected env \<and> miningState s = Paused")
  case True
  then have g: "isConnected env" "miningState s = Paused" by simp_all
  note p = inv_paused [OF assms g(2)]
  show ?thesis
    unfolding inv_fields step_continue_fields [OF g] using p
    by (simp add: closureOk_def)
next
  case False
  then have "dispatch env ClickContinue s = s" by (auto simp: dispatch_simps)
  then show ?thesis using assms by (simp add: step_def)
qed


lemma timerTick_fields:
  "miningState (timerTick env rnd c s) =
     (if endTime c - now env \<le> 0 then Completed else miningState s)"
  "timeLeft (timerTick env rnd c s) = max 0 (endTime c - now env)"
  "pausedProgress (timerTick env rnd c s) = pausedProgress s"
  "pausedTimeLeft (timerTick env rnd c s) = pausedTimeLeft s"
  "displayedReward (timerTick env rnd c s) =
     (if endTime c - now env \<le> 0 then 200 else displayedReward s)"
  "canFindShares (timerTick env rnd c s) = canFindShares s"
  "cpuEnabled (timerTick env rnd c s) = cpuEnabled s"
  "gpuEnabled (timerTick env rnd c s) = gpuEnabled s"
  by (simp_all add: timerTick_def Let_def addLog_def emit_def max_def)

lemma timerTick_progress:
  "progress (timerTick env rnd c s) =
     (if endTime c - now env \<le> 0 then 100
      else tickProgress (endTime c) (initialProgress c) (remainingTime c) (now env))"
  unfolding timerTick_def tickProgress_def Let_def
  by (simp add: addLog_def emit_def max_def)

lemma tickProgress_inv:
  assumes "ip * 6000 = 600000 - of_int rt" "0 < endT - t"
  shows "tickProgress endT ip rt t * 6000 = 600000 - of_int (endT - t)"
proof -
  have "max 0 (endT - t) = endT - t" using assms(2) by simp
  then show ?thesis
    unfolding tickProgress_def using tick_arith [OF assms] by simp
qed

lemma step_tick_fields:
  assumes "timers s = Some c" "miningState s = Mining"
  shows "miningState (step env (TimerFired rnd) s) =
           (if endTime c - now env \<le> 0 then Completed else Mining)"
    "timeLeft (step env (TimerFired rnd) s) = max 0 (endTime c - now env)"
    "progress (step env (TimerFired rnd) s) =
       (if endTime c - now env \<le> 0 then 100
        else tickProgress (endTime c) (initialProgress c) (remainingTime c) (now env))"
    "pausedProgress (step env (TimerFired rnd) s) = pausedProgress s"
    "pausedTimeLeft (step env (TimerFired rnd) s) = pausedTimeLeft s"
    "displayedReward (step env (TimerFired rnd) s) =
       (if endTime c - now env \<le> 0 then 200 else displayedReward s)"
    "timers (step env (TimerFired rnd) s) =
       (if endTime c - now env \<le> 0 then None else Some c)"
  using assms
  by (simp_all add: step_fields step_timers effect_timers dispatch_simps timerTick_fields
        timerTick_progress effectDeps_def)

lemma step_tick_idle: "timers s = None \<Longrightarrow> step env (TimerFired rnd) s = s"
  by (simp add: step_def dispatch_simps)

lemma step_logtick_idle: "timers s = None \<Longrightarrow> step env (LogTimerFired rand txt) s = s"
  by (simp add: step_def dispatch_simps)

lemma inv_tick:
  assumes "sessionInv s"
  shows "sessionInv (step env (TimerFired rnd) s)"
proof (cases "miningState s = Mining")
  case False
  with assms have "timers s = None" by (rule inv_resting)
  then show ?thesis using assms by (simp add: step_tick_idle)
next
  case True
  with assms obtain c where c: "timers s = Some c" "closureOk c"
    by (rule inv_mining)
  show ?thesis
  proof (cases "endTime c - now env \<le> 0")
    case True
    then show ?thesis
      unfolding inv_fields step_tick_fields [OF c(1) \<open>miningState s = Mining\<close>] by simp
  next
    case False
    then have r: "0 < endTime c - now env" by simp
    have "tickProgress (endTime c) (initialProgress c) (remainingTime c) (now env) * 6000
            = 600000 - of_int (endTime c - now env)"
      using c(2) r by (intro tickProgress_inv) (simp_all add: closureOk_def)
    then show ?thesis
      unfolding inv_fields step_tick_fields [OF c(1) \<open>miningState s = Mining\<close>]
      using False c(2) by simp
  qed
qed

lemma logTimerTick_fields:
  "miningState (logTimerTick rand txt s) = miningState s"
  "timeLeft (logTimerTick rand txt s) = timeLeft s"
  "progress (logTimerTick rand txt s) = progress s"
  "pausedProgress (logTimerTick rand txt s) = pausedProgress s"
  "pausedTimeLeft (logTimerTick rand txt s) = pausedTimeLeft s"
  "cpuEnabled (logTimerTick rand txt s) = cpuEnabled s"
  "gpuEnabled (logTimerTick rand txt s) = gpuEnabled s"
  by (simp_all add: logTimerTick_def addLog_def emit_def)

text \<open>Events that leave the session cells and the dependencies of the effect alone.\<close>

lemma dispatch_quiet:
  assumes "ev = ClickStop \<or> ev = ClickCancelStop \<or> ev = ClickClaim
           \<or> ev = WriteErrorChanged w \<or> ev = LogTimerFired rand txt"
  shows "miningState (dispatch env ev s) = miningState s"
    "timeLeft (dispatch env ev s) = timeLeft s"
    "progress (dispatch env ev s) = progress s"
    "pausedProgress (dispatch env ev s) = pausedProgress s"
    "pausedTimeLeft (dispatch env ev s) = pausedTimeLeft s"
    "cpuEnabled (dispatch env ev s) = cpuEnabled s"
    "gpuEnabled (dispatch env ev s) = gpuEnabled s"
  using assms
  by (auto simp: dispatch_simps openStopWarning_def cancelStopWarning_def handleClaim_def
        writeErrorEffect_def emit_def logTimerTick_fields split: option.splits if_splits)

lemma step_quiet_fields:
  assumes "ev = ClickStop \<or> ev = ClickCancelStop \<or> ev = ClickClaim
           \<or> ev = WriteErrorChanged w \<or> ev = LogTimerFired rand txt"
  shows "miningState (step env ev s) = miningState s"
    "timeLeft (step env ev s) = timeLeft s"
    "progress (step env ev s) = progress s"
    "pausedProgress (step env ev s) = pausedProgress s"
    "pausedTimeLeft (step env ev s) = pausedTimeLeft s"
    "timers (step env ev s) = timers s"
  by (simp_all add: step_fields step_timers effectDeps_def dispatch_quiet [OF assms])

lemma inv_quiet:
  assumes "sessionInv s"
    "ev = ClickStop \<or> ev = ClickCancelStop \<or> ev = ClickClaim
           \<or> ev = WriteErrorChanged w \<or> ev = LogTimerFired rand txt"
  shows "sessionInv (step env ev s)"
  using assms(1) unfolding inv_fields step_quiet_fields [OF assms(2)] .


lemma step_resting:
  assumes "sessionInv s" "miningState (dispatch env ev s) \<noteq> Mining"
  shows "timers (step env ev s) = None"
proof (cases "effectDeps (dispatch env ev s) \<noteq> effectDeps s")
  case True
  then show ?thesis using assms(2) by (simp add: step_timers effect_timers)
next
  case False
  then have "miningState s = miningState (dispatch env ev s)"
    by (simp add: effectDeps_def)
  with assms have "timers s = None" by (simp add: inv_resting)
  with False show ?thesis by (simp add: step_timers)
qed

lemma inv_to_resting:
  assumes "sessionInv s"
    "miningState (dispatch env ev s) = Idle \<or> miningState (dispatch env ev s) = Completed"
  shows "sessionInv (step env ev s)"
proof (rule invI_resting)
  show "timers (step env ev s) = None"
    using assms by (intro step_resting) auto
  show "miningState (step env ev s) = Idle \<or> miningState (step env ev s) = Completed"
    using assms(2) by (simp add: step_fields)
qed

lemma inv_confirmStop:
  assumes "sessionInv s"
  shows "sessionInv (step env ClickConfirmStop s)"
proof (cases "showStopWarning s")
  case True
  then have "miningState (dispatch env ClickConfirmStop s) = Idle"
    by (simp add: dispatch_simps confirmStop_def emit_def)
  with assms show ?thesis by (intro inv_to_resting) simp_all
next
  case False
  then have "dispatch env ClickConfirmStop s = s" by (simp add: dispatch_simps)
  then show ?thesis using assms by (simp add: step_def)
qed

lemma inv_confirmed:
  assumes "sessionInv s"
  shows "sessionInv (step env (ConfirmationChanged b h) s)"
proof (cases "b \<and> h \<noteq> None \<and> address env \<noteq> None")
  case True
  then have "miningState (dispatch env (ConfirmationChanged b h) s) = Idle"
    by (auto simp: dispatch_simps confirmedEffect_def emit_def)
  with assms show ?thesis by (intro inv_to_resting) simp_all
next
  case False
  then have "dispatch env (ConfirmationChanged b h) s = s"
    by (auto simp: dispatch_simps confirmedEffect_def split: option.splits bool.splits)
  then show ?thesis using assms by (simp add: step_def)
qed

lemma inv_toggle:
  assumes "sessionInv s" "ev = ClickToggleCpu \<or> ev = ClickToggleGpu"
  shows "sessionInv (step env ev s)"
proof (cases "isConnected env \<and> \<not> (miningState s = Mining \<or> miningState s = Paused)")
  case True
  then have "miningState (dispatch env ev s) = miningState s"
      "miningState s = Idle \<or> miningState s = Completed"
    using assms(2) by (auto simp: dispatch_simps) (cases "miningState s"; simp)+
  with assms(1) show ?thesis by (intro inv_to_resting) simp_all
next
  case False
  then have "dispatch env ev s = s" using assms(2) by (auto simp: dispatch_simps)
  then show ?thesis using assms by (simp add: step_def)
qed

lemma step_start_fields:
  assumes "canStart env s"
  shows "miningState (step env ClickStart s) = Mining"
    "progress (step env ClickStart s) = 0"
    "timeLeft (step env ClickStart s) = 600000"
    "pausedProgress (step env ClickStart s) = 0"
    "pausedTimeLeft (step env ClickStart s) = 0"
    "displayedReward (step env ClickStart s) = 0"
    "canFindShares (step env ClickStart s) = False"
    "timers (step env ClickStart s) =
       Some \<lparr> startTime = now env, initialProgress = 0, remainingTime = 600000,
              endTime = now env + 600000,
              rangeMin = fst (getHashRateRange s), rangeMax = snd (getHashRateRange s) \<rparr>"
  using assms
  by (auto simp: canStart_def step_fields step_timers effect_timers dispatch_simps
        startMining_def emit_def effectDeps_def getHashRateRange_def)

lemma inv_start:
  assumes "sessionInv s"
  shows "sessionInv (step env ClickStart s)"
proof (cases "canStart env s")
  case True
  show ?thesis
    unfolding inv_fields step_start_fields [OF True] by (simp add: closureOk_def)
next
  case False
  then have "dispatch env ClickStart s = s"
    by (auto simp: dispatch_simps canStart_def)
  then show ?thesis using assms by (simp add: step_def)
qed

lemma step_receipt: "step env (ReceiptFailed msg) s = s"
  by (simp add: step_def dispatch_simps)

lemma inv_step: "sessionInv s \<Longrightarrow> sessionInv (step env ev s)"
proof (cases ev)
  case ClickStart
  assume "sessionInv s" then show ?thesis unfolding ClickStart by (rule inv_start)
next
  case ClickPause
  assume "sessionInv s" then show ?thesis unfolding ClickPause by (rule inv_pause)
next
  case ClickContinue
  assume "sessionInv s" then show ?thesis unfolding ClickContinue by (rule inv_continue)
next
  case ClickConfirmStop
  assume "sessionInv s" then show ?thesis unfolding ClickConfirmStop by (rule inv_confirmStop)
next
  case (TimerFired r)
  assume "sessionInv s" then show ?thesis unfolding TimerFired by (rule inv_tick)
next
  case (ConfirmationChanged b h)
  assume "sessionInv s" then show ?thesis unfolding ConfirmationChanged by (rule inv_confirmed)
next
  case (ReceiptFailed msg)
  assume "sessionInv s" then show ?thesis unfolding ReceiptFailed by (simp add: step_receipt)
qed (auto intro: inv_quiet inv_toggle)

lemma inv_run: "sessionInv s \<Longrightarrow> sessionInv (run evs s)"
  by (induction evs arbitrary: s) (auto simp: inv_step)

lemma inv_reachable: "sessionInv (run evs initialState)"
  by (simp add: inv_run inv_initial)

lemma tick_ideal:
  fixes ip :: rat
  assumes "ip * 6000 = 600000 - of_int rt" "endT = t0 + rt"
  shows "(if endT - t \<le> 0 then 100 else tickProgress endT ip rt t)
           = idealProgress (t - (t0 - (600000 - rt)))"
proof (cases "endT - t \<le> 0")
  case True
  then have "600000 \<le> t - (t0 - (600000 - rt))" using assms(2) by simp
  then have "(600000 :: rat) \<le> of_int (t - (t0 - (600000 - rt)))"
    by (metis of_int_le_iff of_int_numeral)
  then have "(100 :: rat) \<le> of_int (t - (t0 - (600000 - rt))) / 600000 * 100"
    by simp
  then show ?thesis using True by (simp add: idealProgress_def)
next
  case False
  then have m: "max 0 (endT - t) = endT - t" by simp
  have ip: "ip = (600000 - of_int rt) / 6000"
    using assms(1) by (simp add: field_simps)
  have e: "ip + of_int (rt - (endT - t)) / 600000 * 100
          = of_int (t - (t0 - (600000 - rt))) / 600000 * 100"
    unfolding ip assms(2) by (simp add: field_simps)
  have "tickProgress endT ip rt t = idealProgress (t - (t0 - (600000 - rt)))"
    unfolding tickProgress_def idealProgress_def m by (simp only: e)
  then show ?thesis
    using False by (simp only: if_False)
qed

lemma ideal_drift:
  assumes "0 \<le> d" "d \<le> 100"
  shows "idealProgress t \<le> idealProgress (t + d)"
    "idealProgress (t + d) \<le> idealProgress t + 1 / 60"
proof -
  have a: "(of_int (t + d) :: rat) / 600000 * 100 = of_int t / 600000 * 100 + of_int d / 6000"
    by (simp add: field_simps)
  have b: "(0 :: rat) \<le> of_int d / 6000" using assms(1) by simp
  have "(of_int d :: rat) \<le> 100" using assms(2) by (metis of_int_le_iff of_int_numeral)
  then have c: "(of_int d :: rat) / 6000 \<le> 1 / 60" by simp
  show "idealProgress t \<le> idealProgress (t + d)"
    unfolding idealProgress_def a using b by (simp add: min_def)
  show "idealProgress (t + d) \<le> idealProgress t + 1 / 60"
    unfolding idealProgress_def a using c by (simp add: min_def)
qed

lemma progress_is_ideal:
  assumes "p * 6000 = 600000 - of_int left" "0 < left"
  shows "(p :: rat) = idealProgress (600000 - left)"
proof -
  have p: "p = (600000 - of_int left) / 6000" using assms(1) by (simp add: field_simps)
  have l: "(600000 - of_int left) / 6000 < (100 :: rat)" using assms(2) by simp
  have "of_int (600000 - left) / 600000 * 100 = (600000 - of_int left) / (6000 :: rat)"
    by (simp add: field_simps)
  then have "idealProgress (600000 - left) = min 100 ((600000 - of_int left) / 6000)"
    by (simp only: idealProgress_def)
  also have "\<dots> = (600000 - of_int left) / 6000"
    using l by (simp only: min_def) simp
  finally show ?thesis using p by simp
qed

section \<open>Pause and resume\<close>

text \<open>
  C3. From any state the component reaches in which it is mining, pausing and then resuming
  (at any later clock reading) leaves \<open>progress\<close> and \<open>timeLeft\<close> as they were; no timer
  callback changes the paused state; the resumed timer starts from the progress and the
  remaining time captured at the pause, which is the timer of a session started at
  \<open>now - elapsedAtPause\<close>; and a first tick within 100 ms of the resume moves the progress by
  at most one tick's worth, \<open>1/60\<close> of a percent.
\<close>

theorem pause_resume_preserves_progress:
  assumes "s = run evs initialState" "miningState s = Mining"
    "isConnected envP" "isConnected envR"
  shows "miningState (step envP ClickPause s) = Paused
       \<and> progress (step envP ClickPause s) = progress s
       \<and> step envW (TimerFired rnd) (step envP ClickPause s) = step envP ClickPause s
       \<and> miningState (step envR ClickContinue (step envP ClickPause s)) = Mining
       \<and> progress (step envR ClickContinue (step envP ClickPause s)) = progress s
       \<and> timeLeft (step envR ClickContinue (step envP ClickPause s)) = timeLeft s
       \<and> (\<exists>c. timers (step envR ClickContinue (step envP ClickPause s)) = Some c
              \<and> initialProgress c = progress s \<and> remainingTime c = timeLeft s
              \<and> endTime c = now envR + timeLeft s)
       \<and> progress (step envT (TimerFired rnd) (step envR ClickContinue (step envP ClickPause s)))
           = idealProgress (now envT - (now envR - (600000 - timeLeft s)))
       \<and> progress s = idealProgress (600000 - timeLeft s)
       \<and> (now envR \<le> now envT \<and> now envT \<le> now envR + 100 \<longrightarrow>
            progress s
              \<le> progress (step envT (TimerFired rnd)
                    (step envR ClickContinue (step envP ClickPause s)))
            \<and> progress (step envT (TimerFired rnd)
                    (step envR ClickContinue (step envP ClickPause s)))
              \<le> progress s + 1 / 60)"
proof -
  let ?sp = "step envP ClickPause s"
  let ?sr = "step envR ClickContinue ?sp"
  let ?st = "step envT (TimerFired rnd) ?sr"
  have inv: "sessionInv s" unfolding assms(1) by (rule inv_reachable)
  from inv assms(2) obtain c0 where tl: "0 < timeLeft s"
      "progress s * 6000 = 600000 - of_int (timeLeft s)"
    by (rule inv_mining)
  note p = step_pause_fields [OF assms(3) assms(2)]
  note r = step_continue_fields [OF assms(4) p(1)]
  have ptl: "pausedTimeLeft ?sp \<noteq> 0" using tl(1) p(5) by simp
  define c where "c = \<lparr> startTime = now envR, initialProgress = progress s,
              remainingTime = timeLeft s, endTime = now envR + timeLeft s,
              rangeMin = fst (getHashRateRange ?sp), rangeMax = snd (getHashRateRange ?sp) \<rparr>"
  have tc: "timers ?sr = Some c"
    unfolding r(6) c_def using ptl p(4) p(5) by simp
  have cf: "initialProgress c = progress s" "remainingTime c = timeLeft s"
      "endTime c = now envR + timeLeft s"
    by (simp_all add: c_def)
  have 1: "step envW (TimerFired rnd) ?sp = ?sp"
    using p(6) by (rule step_tick_idle)
  have pt: "progress ?st =
              (if endTime c - now envT \<le> 0 then 100
               else tickProgress (endTime c) (initialProgress c) (remainingTime c) (now envT))"
    by (rule step_tick_fields(3) [OF tc r(1)])
  have 2: "progress ?st = idealProgress (now envT - (now envR - (600000 - timeLeft s)))"
    unfolding pt cf by (rule tick_ideal [OF tl(2)]) simp
  have 3: "progress s = idealProgress (600000 - timeLeft s)"
    using tl(2) tl(1) by (rule progress_is_ideal)
  have 4: "progress s \<le> progress ?st \<and> progress ?st \<le> progress s + 1 / 60"
    if d: "now envR \<le> now envT" "now envT \<le> now envR + 100"
  proof -
    define d where "d = now envT - now envR"
    have d0: "0 \<le> d" "d \<le> 100" using d by (simp_all add: d_def)
    have e: "now envT - (now envR - (600000 - timeLeft s)) = (600000 - timeLeft s) + d"
      by (simp add: d_def)
    show ?thesis
      unfolding 2 e 3 using ideal_drift [OF d0, of "600000 - timeLeft s"] by simp
  qed
  show ?thesis
    using p(1) p(2) 1 r(1) r(2) r(3) p(2) p(3) tc cf 2 3 4 by simp
qed

theorem pause_resume_preserves_progress_witness:
  "miningState (run [(envAt 0, ClickStart), (envAt 300000, TimerFired 0)] initialState) = Mining
   \<and> progress (run [(envAt 0, ClickStart), (envAt 300000, TimerFired 0)] initialState) = 50
   \<and> progress (step (envAt 900000) ClickContinue (step (envAt 300050) ClickPause
        (run [(envAt 0, ClickStart), (envAt 300000, TimerFired 0)] initialState))) = 50
   \<and> progress (step (envAt 900100) (TimerFired 0)
        (step (envAt 900000) ClickContinue (step (envAt 300050) ClickPause
          (run [(envAt 0, ClickStart), (envAt 300000, TimerFired 0)] initialState))))
       = 50 + 1 / 60"
proof -
  define s0 where "s0 = run [(envAt 0, ClickStart), (envAt 300000, TimerFired 0)] initialState"
  have m: "miningState s0 = Mining" unfolding s0_def by code_simp
  have t: "timeLeft s0 = 300000" unfolding s0_def by code_simp
  have p: "progress s0 = 50" unfolding s0_def by code_simp
  have c: "isConnected (envAt 300050)" "isConnected (envAt 900000)"
    by (simp_all add: envAt_def)
  have n: "now (envAt 900100) = 900100" "now (envAt 900000) = 900000"
    by (simp_all add: envAt_def)
  have i: "idealProgress 300100 = 50 + 1 / 60" by (simp add: idealProgress_def)
  have "miningState s0 = Mining \<and> progress s0 = 50
     \<and> progress (step (envAt 900000) ClickContinue (step (envAt 300050) ClickPause s0)) = 50
     \<and> progress (step (envAt 900100) (TimerFired 0)
          (step (envAt 900000) ClickContinue (step (envAt 300050) ClickPause s0))) = 50 + 1 / 60"
    using pause_resume_preserves_progress [OF s0_def m c, of "envAt 0" 0 "envAt 900100"]
    by (simp add: m t p n i)
  then show ?thesis unfolding s0_def .
qed

lemmas handler0_defs =
  startMining0_def pauseMining0_def continueMining0_def stopAndClaim0_def handleClaim0_def
  confirmedEffect0_def writeErrorEffect0_def timerTick0_def cooldownEffect0_def
  cooldownTick0_def emit0_def

lemma dispatch0_simps:
  "dispatch0 env ClickStart0 s =
     (if isConnected env \<and> miningState0 s = Idle0 \<and> \<not> globalCooldown0 s > 0
      then startMining0 s else s)"
  "dispatch0 env ClickPause0 s =
     (if isConnected env \<and> miningState0 s = Mining0 then pauseMining0 s else s)"
  "dispatch0 env ClickContinue0 s =
     (if isConnected env \<and> miningState0 s = Paused0 then continueMining0 s else s)"
  "dispatch0 env ClickDialogContinue0 s = (if showPauseDialog0 s then continueMining0 s else s)"
  "dispatch0 env ClickStopAndClaim0 s = (if showPauseDialog0 s then stopAndClaim0 s else s)"
  "dispatch0 env DismissDialog0 s = s\<lparr> showPauseDialog0 := False \<rparr>"
  "dispatch0 env ClickClaim0 s =
     (if isConnected env \<and> miningState0 s = Ready0 \<and> \<not> isConfirming env
      then handleClaim0 env s else s)"
  "dispatch0 env (TimerFired0 rnd) s =
     (case timers0 s of None \<Rightarrow> s | Some c \<Rightarrow> timerTick0 env rnd c s)"
  "dispatch0 env (ConfirmationChanged0 isConfirmed hash) s =
     confirmedEffect0 env isConfirmed hash s"
  "dispatch0 env (WriteErrorChanged0 writeError) s = writeErrorEffect0 writeError s"
  "dispatch0 env (NextClaimTimeChanged0 t) s = cooldownEffect0 env t s"
  "dispatch0 env CooldownTimerFired0 s = cooldownTick0 s"
  "dispatch0 env (ReceiptFailed0 msg) s = s"
  by (simp_all add: dispatch0_def)

section \<open>A failed claim\<close>

lemma step0_receipt: "step0 env (ReceiptFailed0 msg) s = s"
  by (simp add: step0_def dispatch0_simps)

text \<open>
  C8, as the code has it. When the contract write fails (the wallet rejects the request, or
  submitting fails), the effect on \<^verbatim>\<open>writeError\<close> shows the destructive toast "Claim Failed"
  with the error's message and changes no cell of the state: a completed session stays
  completed with its progress and reward, and the claim button can be clicked again. When a
  transaction that was submitted fails afterwards (it reverts), no code of the component
  runs: the session stays completed as well, but nothing is shown to the user. This holds in
  both variants of the component.
\<close>

theorem claim_failure_keeps_session:
  "step env (WriteErrorChanged (Some msg)) s
     = s\<lparr> trace := trace s @ [Toast True ''Claim Failed'' msg] \<rparr>
   \<and> step0 env (WriteErrorChanged0 (Some msg)) s0
     = s0\<lparr> trace0 := trace0 s0 @ [Toast True ''Claim Failed'' msg] \<rparr>
   \<and> (miningState s = Completed \<and> isConnected env' \<and> \<not> isConfirming env'
        \<and> address env' \<noteq> None \<longrightarrow>
        miningState (step env (WriteErrorChanged (Some msg)) s) = Completed
        \<and> progress (step env (WriteErrorChanged (Some msg)) s) = progress s
        \<and> displayedReward (step env (WriteErrorChanged (Some msg)) s) = displayedReward s
        \<and> last (trace (step env' ClickClaim (step env (WriteErrorChanged (Some msg)) s)))
            = WriteContractClaim)
   \<and> (miningState0 s0 = Ready0 \<longrightarrow>
        miningState0 (step0 env (WriteErrorChanged0 (Some msg)) s0) = Ready0
        \<and> progress0 (step0 env (WriteErrorChanged0 (Some msg)) s0) = progress0 s0
        \<and> accumulatedReward0 (step0 env (WriteErrorChanged0 (Some msg)) s0)
            = accumulatedReward0 s0)
   \<and> step env (ReceiptFailed msg) s = s
   \<and> step0 env (ReceiptFailed0 msg) s0 = s0"
proof -
  have a: "step env (WriteErrorChanged (Some msg)) s
             = s\<lparr> trace := trace s @ [Toast True ''Claim Failed'' msg] \<rparr>"
    by (simp add: step_def dispatch_simps writeErrorEffect_def emit_def effectDeps_def)
  have b: "step0 env (WriteErrorChanged0 (Some msg)) s0
             = s0\<lparr> trace0 := trace0 s0 @ [Toast True ''Claim Failed'' msg] \<rparr>"
    by (simp add: step0_def dispatch0_simps writeErrorEffect0_def emit0_def effectDeps0_def)
  have c: "last (trace (step env' ClickClaim (s\<lparr> trace := trace s @ [Toast True ''Claim Failed'' msg] \<rparr>)))
             = WriteContractClaim"
    if "miningState s = Completed" "isConnected env'" "\<not> isConfirming env'"
       "address env' \<noteq> None"
    using that
    by (simp add: step_def dispatch_simps handleClaim_def emit_def effectDeps_def)
  show ?thesis unfolding a b using c by (simp add: step_receipt step0_receipt)
qed

theorem claim_failure_keeps_session_witness:
  "miningState (run [(envAt 0, ClickStart), (envAt 600000, TimerFired 0),
                     (envAt 600500, ClickClaim),
                     (envAt 601000, WriteErrorChanged (Some ''User rejected the request.''))]
                  initialState) = Completed
   \<and> progress (run [(envAt 0, ClickStart), (envAt 600000, TimerFired 0),
                     (envAt 600500, ClickClaim),
                     (envAt 601000, WriteErrorChanged (Some ''User rejected the request.''))]
                  initialState) = 100
   \<and> last (trace (run [(envAt 0, ClickStart), (envAt 600000, TimerFired 0),
                     (envAt 600500, ClickClaim),
                     (envAt 601000, WriteErrorChanged (Some ''User rejected the request.''))]
                  initialState)) = Toast True ''Claim Failed'' ''User rejected the request.''
   \<and> run [(envAt 0, ClickStart), (envAt 600000, TimerFired 0), (envAt 600500, ClickClaim),
           (envAt 601000, ReceiptFailed ''User rejected the request.'')] initialState
       = run [(envAt 0, ClickStart), (envAt 600000, TimerFired 0), (envAt 600500, ClickClaim)]
           initialState"
proof -
  define s1 where "s1 = run [(envAt 0, ClickStart), (envAt 600000, TimerFired 0),
                             (envAt 600500, ClickClaim)] initialState"
  have m: "miningState s1 = Completed" unfolding s1_def by code_simp
  have p: "progress s1 = 100" unfolding s1_def by code_simp
  have e: "isConnected (envAt 601500)" "\<not> isConfirming (envAt 601500)"
      "address (envAt 601500) \<noteq> None"
    by (simp_all add: envAt_def)
  have "miningState (step (envAt 601000) (WriteErrorChanged (Some ''User rejected the request.'')) s1) = Completed
      \<and> progress (step (envAt 601000) (WriteErrorChanged (Some ''User rejected the request.'')) s1) = 100
      \<and> last (trace (step (envAt 601000) (WriteErrorChanged (Some ''User rejected the request.'')) s1))
          = Toast True ''Claim Failed'' ''User rejected the request.''
      \<and> step (envAt 601000) (ReceiptFailed ''User rejected the request.'') s1 = s1"
    using claim_failure_keeps_session
            [of "envAt 601000" "''User rejected the request.''" s1 initialState0 "envAt 601500"]
          m p e
    by simp
  then show ?thesis unfolding s1_def by simp
qed

text \<open>
  The claim as stated fails for a transaction that reverts after it was submitted: the
  session is completed, the claim is clicked, the hash arrives, the receipt fails, and the
  trace ends with the contract write. No toast carries the error, in either variant.
\<close>

theorem reverted_claim_counterexample:
  "miningState (run [(envAt 0, ClickStart), (envAt 600000, TimerFired 0),
                     (envAt 600500, ClickClaim),
                     (envAt 600900, ConfirmationChanged False (Some ''0xabc'')),
                     (envAt 615000, ReceiptFailed ''execution reverted'')] initialState)
     = Completed
   \<and> trace (run [(envAt 0, ClickStart), (envAt 600000, TimerFired 0),
                  (envAt 600500, ClickClaim),
                  (envAt 600900, ConfirmationChanged False (Some ''0xabc'')),
                  (envAt 615000, ReceiptFailed ''execution reverted'')] initialState)
     = [SessionStart,
        Log Info ''Connecting to Arc Testnet Node...'',
        Log Info ''Connection established successfully'',
        Log Info ''Mining started with CPU'',
        Log Reward ''Mining session completed! 200 USDC ready to claim'',
        Toast False ''Mining Complete!'' ''200 USDC ready to claim.'',
        WriteContractClaim]
   \<and> miningState0 (run0 [(envAt 0, ClickStart0), (envAt 600000, TimerFired0 0),
                          (envAt 600500, ClickClaim0),
                          (envAt 600900, ConfirmationChanged0 False (Some ''0xabc'')),
                          (envAt 615000, ReceiptFailed0 ''execution reverted'')] initialState0)
     = Ready0
   \<and> trace0 (run0 [(envAt 0, ClickStart0), (envAt 600000, TimerFired0 0),
                    (envAt 600500, ClickClaim0),
                    (envAt 600900, ConfirmationChanged0 False (Some ''0xabc'')),
                    (envAt 615000, ReceiptFailed0 ''execution reverted'')] initialState0)
     = [SessionStart,
        Toast False ''Mining Complete!'' ''You mined a block. Ready to claim rewards.'',
        WriteContractClaim]"
  by code_simp

section \<open>The displayed reward\<close>

lemma reward_dispatch:
  assumes "0 \<le> displayedReward s \<and> displayedReward s \<le> 200"
  shows "0 \<le> displayedReward (dispatch env ev s) \<and> displayedReward (dispatch env ev s) \<le> 200"
  using assms
  by (cases ev)
     (auto simp: dispatch_simps handler_defs Let_def split: option.splits bool.splits)

lemma reward_step:
  "0 \<le> displayedReward s \<and> displayedReward s \<le> 200 \<Longrightarrow>
     0 \<le> displayedReward (step env ev s) \<and> displayedReward (step env ev s) \<le> 200"
  unfolding step_fields by (rule reward_dispatch)

lemma reward_run:
  "0 \<le> displayedReward s \<and> displayedReward s \<le> 200 \<Longrightarrow>
     0 \<le> displayedReward (run evs s) \<and> displayedReward (run evs s) \<le> 200"
proof (induction evs arbitrary: s)
  case Nil
  then show ?case by simp
next
  case (Cons e evs)
  obtain env ev where e: "e = (env, ev)" by (cases e)
  show ?case unfolding e run.simps
    by (rule Cons.IH) (rule reward_step [OF Cons.prems])
qed

text \<open>
  C10. The displayed reward stays between 0 and 200 along every sequence of events. A share
  line adds a third of a unit, clamped at 200; the completing tick sets it to 200; a start,
  a confirmed stop and a confirmed claim set it to 0.
\<close>

theorem displayed_reward_bounded:
  "(0 \<le> displayedReward s \<and> displayedReward s \<le> 200 \<longrightarrow>
      0 \<le> displayedReward (run evs s) \<and> displayedReward (run evs s) \<le> 200)
   \<and> (15 / 100 \<le> rand \<and> rand < 45 / 100 \<and> canFindShares s \<longrightarrow>
        displayedReward (logTimerTick rand txt s) = min 200 (displayedReward s + 1 / 3))
   \<and> (timers s = Some c \<and> miningState s = Mining \<and> endTime c \<le> now env \<longrightarrow>
        displayedReward (step env (TimerFired rnd) s) = 200)
   \<and> (canStart env s \<longrightarrow> displayedReward (step env ClickStart s) = 0)
   \<and> (showStopWarning s \<longrightarrow> displayedReward (step env ClickConfirmStop s) = 0)
   \<and> (address env = Some a \<longrightarrow>
        displayedReward (step env (ConfirmationChanged True (Some h)) s) = 0)"
proof -
  have 2: "displayedReward (logTimerTick rand txt s) = min 200 (displayedReward s + 1 / 3)"
    if "15 / 100 \<le> rand" "rand < 45 / 100" "canFindShares s"
    using that by (simp add: logTimerTick_def addLog_def emit_def)
  have 3: "displayedReward (step env (TimerFired rnd) s) = 200"
    if "timers s = Some c" "miningState s = Mining" "endTime c \<le> now env"
    using that by (simp add: step_tick_fields)
  have 4: "displayedReward (step env ClickStart s) = 0" if "canStart env s"
    using that by (simp add: step_start_fields)
  have 5: "displayedReward (step env ClickConfirmStop s) = 0" if "showStopWarning s"
    using that by (simp add: step_fields dispatch_simps confirmStop_def emit_def)
  have 6: "displayedReward (step env (ConfirmationChanged True (Some h)) s) = 0"
    if "address env = Some a"
    using that by (simp add: step_fields dispatch_simps confirmedEffect_def emit_def)
  show ?thesis using reward_run [of s evs] 2 3 4 5 6 by blast
qed

theorem displayed_reward_bounded_witness:
  "displayedReward (run [(envAt 0, ClickStart), (envAt 800, LogTimerFired (1 / 10) ''ab''),
                         (envAt 1600, LogTimerFired (3 / 10) ''1F'')] initialState) \<le> 200
   \<and> displayedReward (logTimerTick (3 / 10) ''1F''
        (run [(envAt 0, ClickStart), (envAt 800, LogTimerFired (1 / 10) ''ab'')] initialState))
       = 1 / 3
   \<and> displayedReward (step (envAt 600000) (TimerFired 0)
        (run [(envAt 0, ClickStart)] initialState)) = 200
   \<and> displayedReward (step (envAt 0) ClickStart initialState) = 0
   \<and> displayedReward (step (envAt 900) ClickConfirmStop
        (run [(envAt 0, ClickStart), (envAt 800, ClickStop)] initialState)) = 0
   \<and> displayedReward (step (envAt 700000) (ConfirmationChanged True (Some ''0xabc''))
        (run [(envAt 0, ClickStart), (envAt 600000, TimerFired 0)] initialState)) = 0"
proof -
  define sb where "sb = run [(envAt 0, ClickStart), (envAt 800, LogTimerFired (1 / 10) ''ab'')]
                          initialState"
  define s1 where "s1 = run [(envAt 0, ClickStart)] initialState"
  define sw where "sw = run [(envAt 0, ClickStart), (envAt 800, ClickStop)] initialState"
  define sc where "sc = run [(envAt 0, ClickStart), (envAt 600000, TimerFired 0)] initialState"
  define c1 where "c1 = \<lparr> startTime = 0, initialProgress = 0, remainingTime = 600000,
                           endTime = 600000, rangeMin = 100, rangeMax = 200 \<rparr>"
  have i: "0 \<le> displayedReward initialState \<and> displayedReward initialState \<le> 200"
    by (simp add: initialState_def)
  have b: "canFindShares sb" "displayedReward sb = 0" unfolding sb_def by code_simp+
  have t: "timers s1 = Some c1" "miningState s1 = Mining" unfolding s1_def c1_def by code_simp+
  have e: "endTime c1 \<le> now (envAt 600000)" by (simp add: c1_def envAt_def)
  have st: "canStart (envAt 0) initialState" by code_simp
  have w: "showStopWarning sw" unfolding sw_def by code_simp
  have a: "address (envAt 700000) = Some ''0x1111111111111111111111111111111111111111''"
    by (simp add: envAt_def)
  have "displayedReward (run [(envAt 0, ClickStart), (envAt 800, LogTimerFired (1 / 10) ''ab''),
                         (envAt 1600, LogTimerFired (3 / 10) ''1F'')] initialState) \<le> 200"
    using displayed_reward_bounded [of initialState] i by blast
  moreover have "displayedReward (logTimerTick (3 / 10) ''1F'' sb) = 1 / 3"
    using displayed_reward_bounded [of sb _ "3 / 10" "''1F''"] b by simp
  moreover have "displayedReward (step (envAt 600000) (TimerFired 0) s1) = 200"
    using displayed_reward_bounded [of s1 _ _ _ c1 "envAt 600000" 0] t e by blast
  moreover have "displayedReward (step (envAt 0) ClickStart initialState) = 0"
    using displayed_reward_bounded [of initialState _ _ _ _ "envAt 0"] st by blast
  moreover have "displayedReward (step (envAt 900) ClickConfirmStop sw) = 0"
    using displayed_reward_bounded [of sw _ _ _ _ "envAt 900"] w by blast
  moreover have "displayedReward (step (envAt 700000) (ConfirmationChanged True (Some ''0xabc'')) sc) = 0"
    using displayed_reward_bounded [of sc _ _ _ _ "envAt 700000" _ _ "''0xabc''"] a by blast
  ultimately show ?thesis unfolding sb_def s1_def sw_def sc_def by blast
qed

section \<open>The ordering of the log stream\<close>

lemma sharesGated_append:
  "sharesGated b (xs @ ys) = (sharesGated b xs \<and> sharesGated (blockSeen b xs) ys)"
  by (induction b xs rule: sharesGated.induct) auto

lemma blockSeen_append: "blockSeen b (xs @ ys) = blockSeen (blockSeen b xs) ys"
  by (induction b xs rule: blockSeen.induct) auto

lemma gate_effect: "gateInv b (miningEffect env s) = gateInv b s"
  by (simp add: gateInv_def miningEffect_def Let_def addLog_def emit_def
        sharesGated_append blockSeen_append)

lemma gate_dispatch: "gateInv b s \<Longrightarrow> gateInv b (dispatch env ev s)"
  by (cases ev)
     (auto simp: gateInv_def dispatch_simps handler_defs Let_def sharesGated_append
        blockSeen_append split: option.splits bool.splits if_splits)

lemma gate_step: "gateInv b s \<Longrightarrow> gateInv b (step env ev s)"
  by (simp add: step_def Let_def gate_effect gate_dispatch)

lemma gate_run: "gateInv b s \<Longrightarrow> gateInv b (run evs s)"
proof (induction evs arbitrary: s)
  case Nil
  then show ?case by simp
next
  case (Cons e evs)
  obtain env ev where e: "e = (env, ev)" by (cases e)
  show ?case unfolding e run.simps
    by (rule Cons.IH) (rule gate_step [OF Cons.prems])
qed

text \<open>
  C9. In the trace of every run of the component from its initial state, a share line comes
  only after a block line that follows the last session start. The flag \<^verbatim>\<open>canFindShares\<close>
  is false after every start, and a share line is written only while it is true.
\<close>

theorem shares_only_after_block:
  "sharesGated False (trace (run evs initialState))
   \<and> (canStart env s \<longrightarrow> canFindShares (step env ClickStart s) = False)
   \<and> (\<not> canFindShares s \<longrightarrow>
        Log Share msg \<notin> set (drop (length (trace s)) (trace (step env ev s))))"
proof -
  have "gateInv False initialState"
    by (simp add: gateInv_def initialState_def)
  then have 1: "sharesGated False (trace (run evs initialState))"
    using gate_run [of False initialState evs] by (simp add: gateInv_def)
  have 2: "canFindShares (step env ClickStart s) = False" if "canStart env s"
    using that by (simp add: step_start_fields)
  have d: "\<exists>es. trace (dispatch env ev s) = trace s @ es \<and> Log Share msg \<notin> set es"
    if "\<not> canFindShares s"
    using that
    by (cases ev)
       (auto simp: dispatch_simps handler_defs Let_def split: option.splits bool.splits)
  have 3: "Log Share msg \<notin> set (drop (length (trace s)) (trace (step env ev s)))"
    if n: "\<not> canFindShares s"
  proof -
    from d [OF n] obtain es where es: "trace (dispatch env ev s) = trace s @ es"
        "Log Share msg \<notin> set es"
      by blast
    have m: "\<exists>fs. trace (miningEffect env (dispatch env ev s)) = trace (dispatch env ev s) @ fs
               \<and> Log Share msg \<notin> set fs"
      by (simp add: miningEffect_def Let_def addLog_def emit_def)
    then obtain fs where fs: "trace (miningEffect env (dispatch env ev s))
                                = trace (dispatch env ev s) @ fs" "Log Share msg \<notin> set fs"
      by blast
    show ?thesis
      using es fs by (simp add: step_def Let_def)
  qed
  show ?thesis using 1 2 3 by blast
qed

theorem shares_only_after_block_witness:
  "sharesGated False (trace (run [(envAt 0, ClickStart),
        (envAt 800, LogTimerFired (3 / 10) ''1F''),
        (envAt 1600, LogTimerFired (1 / 10) ''ab''),
        (envAt 2400, LogTimerFired (3 / 10) ''2A'')] initialState))
   \<and> map (\<lambda>e. case e of Log ty m \<Rightarrow> Some ty | _ \<Rightarrow> None)
        (trace (run [(envAt 0, ClickStart),
        (envAt 800, LogTimerFired (3 / 10) ''1F''),
        (envAt 1600, LogTimerFired (1 / 10) ''ab''),
        (envAt 2400, LogTimerFired (3 / 10) ''2A'')] initialState))
       = [None, Some Info, Some Info, Some Info, Some Block, Some Share]
   \<and> canFindShares (step (envAt 0) ClickStart initialState) = False"
proof -
  have c: "canStart (envAt 0) initialState" by code_simp
  have m: "map (\<lambda>e. case e of Log ty m \<Rightarrow> Some ty | _ \<Rightarrow> None)
        (trace (run [(envAt 0, ClickStart),
        (envAt 800, LogTimerFired (3 / 10) ''1F''),
        (envAt 1600, LogTimerFired (1 / 10) ''ab''),
        (envAt 2400, LogTimerFired (3 / 10) ''2A'')] initialState))
       = [None, Some Info, Some Info, Some Info, Some Block, Some Share]"
    by code_simp
  show ?thesis
    using shares_only_after_block
            [of "[(envAt 0, ClickStart),
                  (envAt 800, LogTimerFired (3 / 10) ''1F''),
                  (envAt 1600, LogTimerFired (1 / 10) ''ab''),
                  (envAt 2400, LogTimerFired (3 / 10) ''2A'')]" "envAt 0" initialState]
          c m
    by blast
qed

section \<open>An uninterrupted session\<close>

lemma run_resting: "timers s = None \<Longrightarrow> uninterrupted T evs \<Longrightarrow> run evs s = s"
proof (induction evs)
  case Nil
  then show ?case by simp
next
  case (Cons e evs)
  obtain env ev where e: "e = (env, ev)" by (cases e)
  from Cons.prems(2) have t: "isTimerEvent ev" and u: "uninterrupted T evs"
    by (simp_all add: e)
  have "step env ev s = s"
    using t Cons.prems(1) by (cases ev) (simp_all add: step_tick_idle step_logtick_idle)
  then show ?case using Cons.IH [OF Cons.prems(1) u] by (simp add: e)
qed

lemma completions_resting:
  "timers s = None \<Longrightarrow> uninterrupted T evs \<Longrightarrow> completions evs s = 0"
proof (induction evs)
  case Nil
  then show ?case by simp
next
  case (Cons e evs)
  obtain env ev where e: "e = (env, ev)" by (cases e)
  from Cons.prems(2) have t: "isTimerEvent ev" and u: "uninterrupted T evs"
    by (simp_all add: e)
  have "step env ev s = s"
    using t Cons.prems(1) by (cases ev) (simp_all add: step_tick_idle step_logtick_idle)
  then show ?case using Cons.IH [OF Cons.prems(1) u] by (simp add: e)
qed

lemma run_session:
  assumes "timers s = Some c" "miningState s = Mining" "uninterrupted T evs"
  shows "if tickAtOrAfter (endTime c) evs
         then endTime c \<le> T \<and> miningState (run evs s) = Completed
              \<and> timers (run evs s) = None \<and> progress (run evs s) = 100
              \<and> displayedReward (run evs s) = 200 \<and> completions evs s = 1
         else miningState (run evs s) = Mining \<and> timers (run evs s) = Some c
              \<and> completions evs s = 0"
  using assms
proof (induction evs arbitrary: s)
  case Nil
  then show ?case by simp
next
  case (Cons e evs)
  obtain env ev where e: "e = (env, ev)" by (cases e)
  from Cons.prems(3) have t: "isTimerEvent ev" and n: "now env \<le> T"
    and u: "uninterrupted T evs"
    by (simp_all add: e)
  note f = step_tick_fields [OF Cons.prems(1) Cons.prems(2)]
  show ?case
  proof (cases ev)
    case (TimerFired rnd)
    show ?thesis
    proof (cases "endTime c - now env \<le> 0")
      case True
      let ?s' = "step env (TimerFired rnd) s"
      have r: "timers ?s' = None" using True by (simp add: f)
      have "run evs ?s' = ?s'" using r u by (rule run_resting)
      moreover have "completions evs ?s' = 0" using r u by (rule completions_resting)
      moreover have "endTime c \<le> T" using True n by simp
      ultimately show ?thesis
        using True Cons.prems(2) by (simp add: e TimerFired f)
    next
      case False
      let ?s' = "step env (TimerFired rnd) s"
      have r: "timers ?s' = Some c" "miningState ?s' = Mining" using False by (simp_all add: f)
      show ?thesis
        using Cons.IH [OF r u] False r(2) by (simp add: e TimerFired)
    qed
  next
    case (LogTimerFired rand line)
    let ?s' = "step env (LogTimerFired rand line) s"
    have q: "LogTimerFired rand line = ClickStop \<or> LogTimerFired rand line = ClickCancelStop
             \<or> LogTimerFired rand line = ClickClaim
             \<or> LogTimerFired rand line = WriteErrorChanged None
             \<or> LogTimerFired rand line = LogTimerFired rand line"
      by simp
    have r: "timers ?s' = Some c" "miningState ?s' = Mining"
      using Cons.prems(1) Cons.prems(2) by (simp_all add: step_quiet_fields [OF q])
    show ?thesis
      using Cons.IH [OF r u] r(2) by (simp add: e LogTimerFired)
  qed (use t in simp_all)
qed

lemma ideal_full: "600000 \<le> t \<Longrightarrow> idealProgress t = 100"
proof -
  assume "600000 \<le> t"
  then have "(600000 :: rat) \<le> of_int t" by (metis of_int_le_iff of_int_numeral)
  then have "(100 :: rat) \<le> of_int t / 600000 * 100" by simp
  then show ?thesis by (simp add: idealProgress_def)
qed

lemma session_progress:
  assumes "canStart env0 s" "uninterrupted (now env) evs" "now env0 \<le> now env"
    "now env \<le> now env0 + 600000"
  shows "progress (step env (TimerFired rnd) (run evs (step env0 ClickStart s)))
           = idealProgress (now env - now env0)"
proof -
  let ?s1 = "step env0 ClickStart s"
  define c where "c = \<lparr> startTime = now env0, initialProgress = 0, remainingTime = 600000,
              endTime = now env0 + 600000,
              rangeMin = fst (getHashRateRange s), rangeMax = snd (getHashRateRange s) \<rparr>"
  have tc: "timers ?s1 = Some c" "miningState ?s1 = Mining"
    using step_start_fields [OF assms(1)] by (simp_all add: c_def)
  have cf: "endTime c = now env0 + 600000" "initialProgress c = 0" "remainingTime c = 600000"
    by (simp_all add: c_def)
  note rs = run_session [OF tc assms(2)]
  show ?thesis
  proof (cases "tickAtOrAfter (endTime c) evs")
    case True
    with rs have d: "endTime c \<le> now env" "timers (run evs ?s1) = None"
        "progress (run evs ?s1) = 100"
      by simp_all
    have "600000 \<le> now env - now env0" using d(1) cf(1) by simp
    then have "idealProgress (now env - now env0) = 100" by (rule ideal_full)
    then show ?thesis using d by (simp add: step_tick_idle)
  next
    case False
    with rs have d: "miningState (run evs ?s1) = Mining" "timers (run evs ?s1) = Some c"
      by simp_all
    have "(if endTime c - now env \<le> 0 then 100
           else tickProgress (endTime c) 0 600000 (now env))
            = idealProgress (now env - (now env0 - (600000 - 600000)))"
      by (rule tick_ideal) (simp_all add: cf)
    then show ?thesis
      unfolding step_tick_fields(3) [OF d(2) d(1)] cf by simp
  qed
qed

lemma ideal_tolerance:
  assumes "t \<le> t'" "t' \<le> t + 100"
  shows "\<bar>idealProgress t' - idealProgress t\<bar> \<le> 1 / 60"
proof -
  define d where "d = t' - t"
  have d: "0 \<le> d" "d \<le> 100" "t' = t + d" using assms by (simp_all add: d_def)
  show ?thesis unfolding d(3) using ideal_drift [OF d(1) d(2), of t] by simp
qed

lemma accrued_full: "accruedReward 100 = 200"
  by (simp add: accruedReward_def)

subsection \<open>The earlier variant\<close>

lemma effect0_fields:
  "miningState0 (miningEffect0 env s) = miningState0 s"
  "progress0 (miningEffect0 env s) = progress0 s"
  "timeLeft0 (miningEffect0 env s) = timeLeft0 s"
  "accumulatedReward0 (miningEffect0 env s) = accumulatedReward0 s"
  "pausedProgress0 (miningEffect0 env s) = pausedProgress0 s"
  "pausedReward0 (miningEffect0 env s) = pausedReward0 s"
  "pausedTimeLeft0 (miningEffect0 env s) = pausedTimeLeft0 s"
  "trace0 (miningEffect0 env s) = trace0 s"
  by (simp_all add: miningEffect0_def Let_def)

lemma step0_fields:
  "miningState0 (step0 env ev s) = miningState0 (dispatch0 env ev s)"
  "progress0 (step0 env ev s) = progress0 (dispatch0 env ev s)"
  "timeLeft0 (step0 env ev s) = timeLeft0 (dispatch0 env ev s)"
  "accumulatedReward0 (step0 env ev s) = accumulatedReward0 (dispatch0 env ev s)"
  "pausedProgress0 (step0 env ev s) = pausedProgress0 (dispatch0 env ev s)"
  "pausedReward0 (step0 env ev s) = pausedReward0 (dispatch0 env ev s)"
  "pausedTimeLeft0 (step0 env ev s) = pausedTimeLeft0 (dispatch0 env ev s)"
  "trace0 (step0 env ev s) = trace0 (dispatch0 env ev s)"
  by (simp_all add: step0_def Let_def effect0_fields)

lemma effect0_timers:
  "timers0 (miningEffect0 env s) =
     (if miningState0 s = Mining0
      then Some \<lparr> startTime0 = now env, initialProgress0 = pausedProgress0 s,
                  initialReward0 = pausedReward0 s,
                  remainingTime0 = (if pausedTimeLeft0 s = 0 then 600000 else pausedTimeLeft0 s),
                  endTime0 = now env + (if pausedTimeLeft0 s = 0 then 600000 else pausedTimeLeft0 s) \<rparr>
      else None)"
  by (simp add: miningEffect0_def Let_def)

lemma dispatch0_timers: "timers0 (dispatch0 env ev s) = timers0 s"
  by (cases ev)
     (simp_all add: dispatch0_simps handler0_defs Let_def split: option.splits bool.splits)

lemma step0_timers:
  "timers0 (step0 env ev s) =
     (if effectDeps0 (dispatch0 env ev s) \<noteq> effectDeps0 s
      then timers0 (miningEffect0 env (dispatch0 env ev s)) else timers0 s)"
  by (simp add: step0_def Let_def dispatch0_timers)

lemma timerTick0_fields:
  "miningState0 (timerTick0 env rnd c s) =
     (if endTime0 c - now env \<le> 0 then Ready0 else miningState0 s)"
  "timeLeft0 (timerTick0 env rnd c s) = max 0 (endTime0 c - now env)"
  "pausedProgress0 (timerTick0 env rnd c s) = pausedProgress0 s"
  "pausedReward0 (timerTick0 env rnd c s) = pausedReward0 s"
  "pausedTimeLeft0 (timerTick0 env rnd c s) = pausedTimeLeft0 s"
  by (simp_all add: timerTick0_def Let_def emit0_def max_def)

lemma timerTick0_progress:
  "progress0 (timerTick0 env rnd c s) =
     tickProgress (endTime0 c) (initialProgress0 c) (remainingTime0 c) (now env)"
  "accumulatedReward0 (timerTick0 env rnd c s) =
     (if endTime0 c - now env \<le> 0 then 200
      else accruedReward
             (tickProgress (endTime0 c) (initialProgress0 c) (remainingTime0 c) (now env)))"
  unfolding timerTick0_def tickProgress_def accruedReward_def Let_def
  by (simp_all add: emit0_def max_def)

lemma step0_tick_fields:
  assumes "timers0 s = Some c" "miningState0 s = Mining0"
  shows "miningState0 (step0 env (TimerFired0 rnd) s) =
           (if endTime0 c - now env \<le> 0 then Ready0 else Mining0)"
    "progress0 (step0 env (TimerFired0 rnd) s) =
       tickProgress (endTime0 c) (initialProgress0 c) (remainingTime0 c) (now env)"
    "accumulatedReward0 (step0 env (TimerFired0 rnd) s) =
       (if endTime0 c - now env \<le> 0 then 200
        else accruedReward
               (tickProgress (endTime0 c) (initialProgress0 c) (remainingTime0 c) (now env)))"
    "timers0 (step0 env (TimerFired0 rnd) s) =
       (if endTime0 c - now env \<le> 0 then None else Some c)"
  using assms
  by (simp_all add: step0_fields step0_timers effect0_timers dispatch0_simps timerTick0_fields
        timerTick0_progress effectDeps0_def)

lemma step0_tick_idle: "timers0 s = None \<Longrightarrow> step0 env (TimerFired0 rnd) s = s"
  by (simp add: step0_def dispatch0_simps)

lemma step0_cooldown_fields:
  "miningState0 (step0 env CooldownTimerFired0 s) = miningState0 s"
  "progress0 (step0 env CooldownTimerFired0 s) = progress0 s"
  "accumulatedReward0 (step0 env CooldownTimerFired0 s) = accumulatedReward0 s"
  "timers0 (step0 env CooldownTimerFired0 s) = timers0 s"
  by (simp_all add: step0_fields step0_timers dispatch0_simps cooldownTick0_def effectDeps0_def)

lemma step0_start_fields:
  assumes "canStart0 env s"
  shows "miningState0 (step0 env ClickStart0 s) = Mining0"
    "progress0 (step0 env ClickStart0 s) = 0"
    "accumulatedReward0 (step0 env ClickStart0 s) = 0"
    "timers0 (step0 env ClickStart0 s) =
       Some \<lparr> startTime0 = now env, initialProgress0 = 0, initialReward0 = 0,
              remainingTime0 = 600000, endTime0 = now env + 600000 \<rparr>"
  using assms
  by (auto simp: canStart0_def step0_fields step0_timers effect0_timers dispatch0_simps
        startMining0_def emit0_def effectDeps0_def)

lemma tickProgress_done:
  assumes "ip * 6000 = 600000 - of_int rt" "endT - t \<le> 0"
  shows "tickProgress endT ip rt t = 100"
proof -
  have m: "max 0 (endT - t) = 0" using assms(2) by simp
  have ip: "ip = (600000 - of_int rt) / 6000" using assms(1) by (simp add: field_simps)
  have "ip + of_int (rt - 0) / 600000 * 100 = (100 :: rat)"
    unfolding ip by (simp add: field_simps)
  then show ?thesis unfolding tickProgress_def m by (simp only:)
qed

lemma run0_resting:
  "timers0 s = None \<Longrightarrow> uninterrupted0 T evs \<Longrightarrow>
     miningState0 (run0 evs s) = miningState0 s \<and> progress0 (run0 evs s) = progress0 s
     \<and> accumulatedReward0 (run0 evs s) = accumulatedReward0 s \<and> timers0 (run0 evs s) = None
     \<and> completions0 evs s = 0"
proof (induction evs arbitrary: s)
  case Nil
  then show ?case by simp
next
  case (Cons e evs)
  obtain env ev where e: "e = (env, ev)" by (cases e)
  from Cons.prems(2) have t: "isTimerEvent0 ev" and u: "uninterrupted0 T evs"
    by (simp_all add: e)
  have f: "miningState0 (step0 env ev s) = miningState0 s"
      "progress0 (step0 env ev s) = progress0 s"
      "accumulatedReward0 (step0 env ev s) = accumulatedReward0 s"
      "timers0 (step0 env ev s) = None"
    using t Cons.prems(1)
    by (cases ev; simp add: step0_tick_idle step0_cooldown_fields)+
  show ?case
    using Cons.IH [OF f(4) u] f by (simp add: e)
qed

lemma run0_session:
  assumes "timers0 s = Some c" "miningState0 s = Mining0" "uninterrupted0 T evs"
    "initialProgress0 c * 6000 = 600000 - of_int (remainingTime0 c)"
  shows "if tickAtOrAfter0 (endTime0 c) evs
         then endTime0 c \<le> T \<and> miningState0 (run0 evs s) = Ready0
              \<and> timers0 (run0 evs s) = None \<and> progress0 (run0 evs s) = 100
              \<and> accumulatedReward0 (run0 evs s) = 200 \<and> completions0 evs s = 1
         else miningState0 (run0 evs s) = Mining0 \<and> timers0 (run0 evs s) = Some c
              \<and> completions0 evs s = 0"
  using assms(1,2,3)
proof (induction evs arbitrary: s)
  case Nil
  then show ?case by simp
next
  case (Cons e evs)
  obtain env ev where e: "e = (env, ev)" by (cases e)
  from Cons.prems(3) have t: "isTimerEvent0 ev" and n: "now env \<le> T"
    and u: "uninterrupted0 T evs"
    by (simp_all add: e)
  note f = step0_tick_fields [OF Cons.prems(1) Cons.prems(2)]
  show ?case
  proof (cases ev)
    case (TimerFired0 rnd)
    show ?thesis
    proof (cases "endTime0 c - now env \<le> 0")
      case True
      let ?s' = "step0 env (TimerFired0 rnd) s"
      have r: "timers0 ?s' = None" using True by (simp add: f)
      have p: "progress0 ?s' = 100"
        unfolding f(2) using assms(4) True by (rule tickProgress_done)
      have "endTime0 c \<le> T" using True n by simp
      then show ?thesis
        using run0_resting [OF r u] True Cons.prems(2) p by (simp add: e TimerFired0 f)
    next
      case False
      let ?s' = "step0 env (TimerFired0 rnd) s"
      have r: "timers0 ?s' = Some c" "miningState0 ?s' = Mining0"
        using False by (simp_all add: f)
      show ?thesis
        using Cons.IH [OF r u] False r(2) by (simp add: e TimerFired0)
    qed
  next
    case CooldownTimerFired0
    let ?s' = "step0 env CooldownTimerFired0 s"
    have r: "timers0 ?s' = Some c" "miningState0 ?s' = Mining0"
      using Cons.prems(1) Cons.prems(2) by (simp_all add: step0_cooldown_fields)
    show ?thesis
      using Cons.IH [OF r u] r(2) by (simp add: e CooldownTimerFired0)
  qed (use t in simp_all)
qed

lemma session0_progress:
  assumes "canStart0 env0 s" "uninterrupted0 (now env) evs" "now env0 \<le> now env"
    "now env \<le> now env0 + 600000"
  shows "progress0 (step0 env (TimerFired0 rnd) (run0 evs (step0 env0 ClickStart0 s)))
           = idealProgress (now env - now env0)"
proof -
  let ?s1 = "step0 env0 ClickStart0 s"
  define c where "c = \<lparr> startTime0 = now env0, initialProgress0 = 0, initialReward0 = 0,
              remainingTime0 = 600000, endTime0 = now env0 + 600000 \<rparr>"
  have tc: "timers0 ?s1 = Some c" "miningState0 ?s1 = Mining0"
    using step0_start_fields [OF assms(1)] by (simp_all add: c_def)
  have cf: "endTime0 c = now env0 + 600000" "initialProgress0 c = 0"
      "remainingTime0 c = 600000"
    by (simp_all add: c_def)
  have ok: "initialProgress0 c * 6000 = 600000 - of_int (remainingTime0 c)"
    by (simp add: cf)
  note rs = run0_session [OF tc assms(2) ok]
  show ?thesis
  proof (cases "tickAtOrAfter0 (endTime0 c) evs")
    case True
    with rs have d: "endTime0 c \<le> now env" "timers0 (run0 evs ?s1) = None"
        "progress0 (run0 evs ?s1) = 100"
      by simp_all
    have "600000 \<le> now env - now env0" using d(1) cf(1) by simp
    then have "idealProgress (now env - now env0) = 100" by (rule ideal_full)
    then show ?thesis using d by (simp add: step0_tick_idle)
  next
    case False
    with rs have d: "miningState0 (run0 evs ?s1) = Mining0" "timers0 (run0 evs ?s1) = Some c"
      by simp_all
    have i: "(if endTime0 c - now env \<le> 0 then 100
           else tickProgress (endTime0 c) 0 600000 (now env))
            = idealProgress (now env - (now env0 - (600000 - 600000)))"
      by (rule tick_ideal) (simp_all add: cf)
    have "tickProgress (endTime0 c) 0 600000 (now env) = 100" if "endTime0 c - now env \<le> 0"
      using that by (intro tickProgress_done) simp_all
    then have "tickProgress (endTime0 c) 0 600000 (now env)
                 = idealProgress (now env - now env0)"
      using i by (cases "endTime0 c - now env \<le> 0") simp_all
    then show ?thesis
      unfolding step0_tick_fields(2) [OF d(2) d(1)] cf .
  qed
qed

text \<open>
  C2. Start a session at clock reading \<open>now env0\<close> and let only timer callbacks happen.
  A tick at a reading \<open>t\<close> ms after the start, \<open>0 \<le> t \<le> 600000\<close>, sets the progress to
  \<open>min 100 (t / 600000 * 100)\<close>, and until the next tick 100 ms later the cell is at most
  \<open>1/60\<close> of a percent behind. The run takes the session from mining to its final state
  exactly once if some tick reads the clock at or after the end of the ten minutes, and not
  at all otherwise; in the final state the progress is 100 and the reward 200, and further
  timer callbacks leave the state as it is. This holds in both variants of the component.
\<close>

theorem uninterrupted_session_progress:
  "(canStart env0 s \<longrightarrow>
      (uninterrupted (now env) evs \<and> now env0 \<le> now env \<and> now env \<le> now env0 + 600000 \<longrightarrow>
         progress (step env (TimerFired rnd) (run evs (step env0 ClickStart s)))
           = idealProgress (now env - now env0)
         \<and> (now env \<le> t' \<and> t' \<le> now env + 100 \<longrightarrow>
              \<bar>idealProgress (t' - now env0)
                 - progress (step env (TimerFired rnd) (run evs (step env0 ClickStart s)))\<bar>
                \<le> 1 / 60))
      \<and> (uninterrupted T evs \<longrightarrow>
           (if tickAtOrAfter (now env0 + 600000) evs
            then miningState (run evs (step env0 ClickStart s)) = Completed
                 \<and> completions evs (step env0 ClickStart s) = 1
                 \<and> progress (run evs (step env0 ClickStart s)) = 100
                 \<and> accruedReward (progress (run evs (step env0 ClickStart s))) = 200
                 \<and> displayedReward (run evs (step env0 ClickStart s)) = 200
                 \<and> (uninterrupted T' evs' \<longrightarrow>
                      run evs' (run evs (step env0 ClickStart s))
                        = run evs (step env0 ClickStart s))
            else miningState (run evs (step env0 ClickStart s)) = Mining
                 \<and> completions evs (step env0 ClickStart s) = 0)))
   \<and> (canStart0 env0 s0 \<longrightarrow>
      (uninterrupted0 (now env) evs0 \<and> now env0 \<le> now env \<and> now env \<le> now env0 + 600000 \<longrightarrow>
         progress0 (step0 env (TimerFired0 rnd) (run0 evs0 (step0 env0 ClickStart0 s0)))
           = idealProgress (now env - now env0)
         \<and> (now env \<le> t' \<and> t' \<le> now env + 100 \<longrightarrow>
              \<bar>idealProgress (t' - now env0)
                 - progress0 (step0 env (TimerFired0 rnd)
                     (run0 evs0 (step0 env0 ClickStart0 s0)))\<bar>
                \<le> 1 / 60))
      \<and> (uninterrupted0 T evs0 \<longrightarrow>
           (if tickAtOrAfter0 (now env0 + 600000) evs0
            then miningState0 (run0 evs0 (step0 env0 ClickStart0 s0)) = Ready0
                 \<and> completions0 evs0 (step0 env0 ClickStart0 s0) = 1
                 \<and> progress0 (run0 evs0 (step0 env0 ClickStart0 s0)) = 100
                 \<and> accumulatedReward0 (run0 evs0 (step0 env0 ClickStart0 s0)) = 200
                 \<and> (uninterrupted0 T' evs0' \<longrightarrow>
                      accumulatedReward0 (run0 evs0' (run0 evs0 (step0 env0 ClickStart0 s0)))
                        = 200
                      \<and> miningState0 (run0 evs0' (run0 evs0 (step0 env0 ClickStart0 s0)))
                        = Ready0
                      \<and> completions0 evs0' (run0 evs0 (step0 env0 ClickStart0 s0)) = 0)
            else miningState0 (run0 evs0 (step0 env0 ClickStart0 s0)) = Mining0
                 \<and> completions0 evs0 (step0 env0 ClickStart0 s0) = 0)))"
proof -
  have A1: "progress (step env (TimerFired rnd) (run evs (step env0 ClickStart s)))
           = idealProgress (now env - now env0)
         \<and> (now env \<le> t' \<and> t' \<le> now env + 100 \<longrightarrow>
              \<bar>idealProgress (t' - now env0)
                 - progress (step env (TimerFired rnd) (run evs (step env0 ClickStart s)))\<bar>
                \<le> 1 / 60)"
    if h: "canStart env0 s" "uninterrupted (now env) evs" "now env0 \<le> now env"
       "now env \<le> now env0 + 600000"
  proof -
    note p = session_progress [OF h, of rnd]
    have "\<bar>idealProgress (t' - now env0) - idealProgress (now env - now env0)\<bar> \<le> 1 / 60"
      if "now env \<le> t'" "t' \<le> now env + 100"
      using that by (intro ideal_tolerance) simp_all
    then show ?thesis unfolding p by simp
  qed
  have A2: "if tickAtOrAfter (now env0 + 600000) evs
            then miningState (run evs (step env0 ClickStart s)) = Completed
                 \<and> completions evs (step env0 ClickStart s) = 1
                 \<and> progress (run evs (step env0 ClickStart s)) = 100
                 \<and> accruedReward (progress (run evs (step env0 ClickStart s))) = 200
                 \<and> displayedReward (run evs (step env0 ClickStart s)) = 200
                 \<and> (uninterrupted T' evs' \<longrightarrow>
                      run evs' (run evs (step env0 ClickStart s))
                        = run evs (step env0 ClickStart s))
            else miningState (run evs (step env0 ClickStart s)) = Mining
                 \<and> completions evs (step env0 ClickStart s) = 0"
    if h: "canStart env0 s" "uninterrupted T evs"
  proof -
    let ?s1 = "step env0 ClickStart s"
    define c where "c = \<lparr> startTime = now env0, initialProgress = 0, remainingTime = 600000,
              endTime = now env0 + 600000,
              rangeMin = fst (getHashRateRange s), rangeMax = snd (getHashRateRange s) \<rparr>"
    have tc: "timers ?s1 = Some c" "miningState ?s1 = Mining"
      using step_start_fields [OF h(1)] by (simp_all add: c_def)
    have cf: "endTime c = now env0 + 600000" by (simp add: c_def)
    note rs = run_session [OF tc h(2), unfolded cf]
    show ?thesis
    proof (cases "tickAtOrAfter (now env0 + 600000) evs")
      case True
      with rs have d: "miningState (run evs ?s1) = Completed" "timers (run evs ?s1) = None"
          "progress (run evs ?s1) = 100" "displayedReward (run evs ?s1) = 200"
          "completions evs ?s1 = 1"
        by simp_all
      have "run evs' (run evs ?s1) = run evs ?s1" if "uninterrupted T' evs'"
        using d(2) that by (rule run_resting)
      then show ?thesis using True d by (simp add: accrued_full)
    next
      case False
      with rs show ?thesis by simp
    qed
  qed
  have B1: "progress0 (step0 env (TimerFired0 rnd) (run0 evs0 (step0 env0 ClickStart0 s0)))
           = idealProgress (now env - now env0)
         \<and> (now env \<le> t' \<and> t' \<le> now env + 100 \<longrightarrow>
              \<bar>idealProgress (t' - now env0)
                 - progress0 (step0 env (TimerFired0 rnd)
                     (run0 evs0 (step0 env0 ClickStart0 s0)))\<bar>
                \<le> 1 / 60)"
    if h: "canStart0 env0 s0" "uninterrupted0 (now env) evs0" "now env0 \<le> now env"
       "now env \<le> now env0 + 600000"
  proof -
    note p = session0_progress [OF h, of rnd]
    have "\<bar>idealProgress (t' - now env0) - idealProgress (now env - now env0)\<bar> \<le> 1 / 60"
      if "now env \<le> t'" "t' \<le> now env + 100"
      using that by (intro ideal_tolerance) simp_all
    then show ?thesis unfolding p by simp
  qed
  have B2: "if tickAtOrAfter0 (now env0 + 600000) evs0
            then miningState0 (run0 evs0 (step0 env0 ClickStart0 s0)) = Ready0
                 \<and> completions0 evs0 (step0 env0 ClickStart0 s0) = 1
                 \<and> progress0 (run0 evs0 (step0 env0 ClickStart0 s0)) = 100
                 \<and> accumulatedReward0 (run0 evs0 (step0 env0 ClickStart0 s0)) = 200
                 \<and> (uninterrupted0 T' evs0' \<longrightarrow>
                      accumulatedReward0 (run0 evs0' (run0 evs0 (step0 env0 ClickStart0 s0)))
                        = 200
                      \<and> miningState0 (run0 evs0' (run0 evs0 (step0 env0 ClickStart0 s0)))
                        = Ready0
                      \<and> completions0 evs0' (run0 evs0 (step0 env0 ClickStart0 s0)) = 0)
            else miningState0 (run0 evs0 (step0 env0 ClickStart0 s0)) = Mining0
                 \<and> completions0 evs0 (step0 env0 ClickStart0 s0) = 0"
    if h: "canStart0 env0 s0" "uninterrupted0 T evs0"
  proof -
    let ?s1 = "step0 env0 ClickStart0 s0"
    define c where "c = \<lparr> startTime0 = now env0, initialProgress0 = 0, initialReward0 = 0,
              remainingTime0 = 600000, endTime0 = now env0 + 600000 \<rparr>"
    have tc: "timers0 ?s1 = Some c" "miningState0 ?s1 = Mining0"
      using step0_start_fields [OF h(1)] by (simp_all add: c_def)
    have cf: "endTime0 c = now env0 + 600000" by (simp add: c_def)
    have ok: "initialProgress0 c * 6000 = 600000 - of_int (remainingTime0 c)"
      by (simp add: c_def)
    note rs = run0_session [OF tc h(2) ok, unfolded cf]
    show ?thesis
    proof (cases "tickAtOrAfter0 (now env0 + 600000) evs0")
      case True
      with rs have d: "miningState0 (run0 evs0 ?s1) = Ready0" "timers0 (run0 evs0 ?s1) = None"
          "progress0 (run0 evs0 ?s1) = 100" "accumulatedReward0 (run0 evs0 ?s1) = 200"
          "completions0 evs0 ?s1 = 1"
        by simp_all
      have "accumulatedReward0 (run0 evs0' (run0 evs0 ?s1)) = 200
            \<and> miningState0 (run0 evs0' (run0 evs0 ?s1)) = Ready0
            \<and> completions0 evs0' (run0 evs0 ?s1) = 0"
        if "uninterrupted0 T' evs0'"
        using run0_resting [OF d(2) that] d by simp
      then show ?thesis using True d by simp
    next
      case False
      with rs show ?thesis by simp
    qed
  qed
  show ?thesis using A1 A2 B1 B2 by blast
qed

theorem uninterrupted_session_progress_witness:
  "progress (step (envAt 301000) (TimerFired 0)
      (run [(envAt 1100, TimerFired 0), (envAt 1800, LogTimerFired (1 / 10) ''ab'')]
         (step (envAt 1000) ClickStart initialState))) = 50
   \<and> miningState (run [(envAt 301000, TimerFired 0), (envAt 601000, TimerFired 0),
                        (envAt 601100, TimerFired 0)]
         (step (envAt 1000) ClickStart initialState)) = Completed
   \<and> completions [(envAt 301000, TimerFired 0), (envAt 601000, TimerFired 0),
                    (envAt 601100, TimerFired 0)]
         (step (envAt 1000) ClickStart initialState) = 1
   \<and> displayedReward (run [(envAt 301000, TimerFired 0), (envAt 601000, TimerFired 0),
                            (envAt 601100, TimerFired 0)]
         (step (envAt 1000) ClickStart initialState)) = 200
   \<and> progress0 (step0 (envAt 301000) (TimerFired0 0)
      (run0 [(envAt 1100, TimerFired0 0)] (step0 (envAt 1000) ClickStart0 initialState0))) = 50
   \<and> miningState0 (run0 [(envAt 301000, TimerFired0 0), (envAt 601000, TimerFired0 0),
                          (envAt 601100, TimerFired0 0)]
         (step0 (envAt 1000) ClickStart0 initialState0)) = Ready0
   \<and> accumulatedReward0 (run0 [(envAt 301000, TimerFired0 0), (envAt 601000, TimerFired0 0),
                                (envAt 601100, TimerFired0 0)]
         (step0 (envAt 1000) ClickStart0 initialState0)) = 200"
proof -
  define evsA where "evsA = [(envAt 1100, TimerFired 0), (envAt 1800, LogTimerFired (1 / 10) ''ab'')]"
  define evsB where "evsB = [(envAt 301000, TimerFired 0), (envAt 601000, TimerFired 0),
                             (envAt 601100, TimerFired 0)]"
  define evsA0 where "evsA0 = [(envAt 1100, TimerFired0 0)]"
  define evsB0 where "evsB0 = [(envAt 301000, TimerFired0 0), (envAt 601000, TimerFired0 0),
                               (envAt 601100, TimerFired0 0)]"
  have c: "canStart (envAt 1000) initialState" "canStart0 (envAt 1000) initialState0"
    by code_simp+
  have n: "now (envAt 1000) = 1000" "now (envAt 301000) = 301000"
    by (simp_all add: envAt_def)
  have u: "uninterrupted 301000 evsA" "uninterrupted 700000 evsB"
      "uninterrupted0 301000 evsA0" "uninterrupted0 700000 evsB0"
    unfolding evsA_def evsB_def evsA0_def evsB0_def by code_simp+
  have t: "tickAtOrAfter 601000 evsB" "tickAtOrAfter0 601000 evsB0"
    unfolding evsB_def evsB0_def by code_simp+
  have i: "idealProgress 300000 = 50" by (simp add: idealProgress_def)
  have "progress (step (envAt 301000) (TimerFired 0)
          (run evsA (step (envAt 1000) ClickStart initialState))) = 50
      \<and> progress0 (step0 (envAt 301000) (TimerFired0 0)
          (run0 evsA0 (step0 (envAt 1000) ClickStart0 initialState0))) = 50"
    using uninterrupted_session_progress
            [of "envAt 1000" initialState "envAt 301000" evsA 0 _ _ _ _ initialState0 evsA0]
          c n u i
    by simp
  moreover have "miningState (run evsB (step (envAt 1000) ClickStart initialState)) = Completed
      \<and> completions evsB (step (envAt 1000) ClickStart initialState) = 1
      \<and> displayedReward (run evsB (step (envAt 1000) ClickStart initialState)) = 200
      \<and> miningState0 (run0 evsB0 (step0 (envAt 1000) ClickStart0 initialState0)) = Ready0
      \<and> accumulatedReward0 (run0 evsB0 (step0 (envAt 1000) ClickStart0 initialState0)) = 200"
    using uninterrupted_session_progress
            [of "envAt 1000" initialState _ evsB _ _ 700000 _ _ initialState0 evsB0]
          c n u t
    by simp
  ultimately show ?thesis unfolding evsA_def evsB_def evsA0_def evsB0_def by blast
qed

section \<open>A confirmed claim\<close>

text \<open>
  C4, as the code has it. On a confirmed claim transaction both variants reset the session to
  idle, with progress, reward and the pause snapshots back to 0, and post one entry to the
  server. The v1.0.5 component posts the amount \<^verbatim>\<open>"200.000000"\<close> whatever the state. The
  earlier component posts \<^verbatim>\<open>accumulatedReward.toFixed(6)\<close>: \<^verbatim>\<open>"200.000000"\<close> when the
  reward is 200, as it is after a session that ran to its end.
\<close>

theorem confirmed_claim_resets_and_reports:
  "(address env = Some a \<longrightarrow>
      miningState (step env (ConfirmationChanged True (Some h)) s) = Idle
      \<and> progress (step env (ConfirmationChanged True (Some h)) s) = 0
      \<and> displayedReward (step env (ConfirmationChanged True (Some h)) s) = 0
      \<and> pausedProgress (step env (ConfirmationChanged True (Some h)) s) = 0
      \<and> pausedTimeLeft (step env (ConfirmationChanged True (Some h)) s) = 0
      \<and> trace (step env (ConfirmationChanged True (Some h)) s)
          = trace s @ [PostClaimHistory \<lparr> walletAddress = a, amount = ''200.000000'',
                                           transactionHash = Some h \<rparr>,
                       Toast False ''Claim Successful!'' ''200 USDC has been sent to your wallet.'',
                       RefetchClaimInfo, RefetchBalance])
   \<and> (address env = Some a \<longrightarrow>
      miningState0 (step0 env (ConfirmationChanged0 True (Some h)) s0) = Idle0
      \<and> progress0 (step0 env (ConfirmationChanged0 True (Some h)) s0) = 0
      \<and> accumulatedReward0 (step0 env (ConfirmationChanged0 True (Some h)) s0) = 0
      \<and> pausedProgress0 (step0 env (ConfirmationChanged0 True (Some h)) s0) = 0
      \<and> pausedReward0 (step0 env (ConfirmationChanged0 True (Some h)) s0) = 0
      \<and> pausedTimeLeft0 (step0 env (ConfirmationChanged0 True (Some h)) s0) = 0
      \<and> trace0 (step0 env (ConfirmationChanged0 True (Some h)) s0)
          = trace0 s0 @ [PostClaimHistory \<lparr> walletAddress = a,
                                             amount = toFixedRat 6 (accumulatedReward0 s0),
                                             transactionHash = Some h \<rparr>,
                         Toast False ''Claim Successful!'' ''USDC has been sent to your wallet.'',
                         RefetchClaimInfo, RefetchBalance]
      \<and> (accumulatedReward0 s0 = 200 \<longrightarrow>
           toFixedRat 6 (accumulatedReward0 s0) = ''200.000000''))"
proof -
  have t: "toFixedRat 6 200 = ''200.000000''" by code_simp
  have d: "dispatch env (ConfirmationChanged True (Some h)) s
             = (s\<lparr> trace := trace s @ [PostClaimHistory \<lparr> walletAddress = a,
                        amount = ''200.000000'', transactionHash = Some h \<rparr>,
                       Toast False ''Claim Successful!'' ''200 USDC has been sent to your wallet.'',
                       RefetchClaimInfo, RefetchBalance],
                  miningState := Idle, displayedReward := 0, progress := 0,
                  pausedProgress := 0, pausedTimeLeft := 0, miningLogs := [],
                  canFindShares := False, blocksFound := 0, sharesFound := 0 \<rparr>)"
    if "address env = Some a"
    using that by (simp add: dispatch_simps confirmedEffect_def emit_def)
  have tr: "trace (step env ev s) = trace (dispatch env ev s)"
    if "miningState (dispatch env ev s) \<noteq> Mining" for ev
    using that by (simp add: step_def Let_def miningEffect_def)
  have A: "miningState (step env (ConfirmationChanged True (Some h)) s) = Idle
      \<and> progress (step env (ConfirmationChanged True (Some h)) s) = 0
      \<and> displayedReward (step env (ConfirmationChanged True (Some h)) s) = 0
      \<and> pausedProgress (step env (ConfirmationChanged True (Some h)) s) = 0
      \<and> pausedTimeLeft (step env (ConfirmationChanged True (Some h)) s) = 0
      \<and> trace (step env (ConfirmationChanged True (Some h)) s)
          = trace s @ [PostClaimHistory \<lparr> walletAddress = a, amount = ''200.000000'',
                                           transactionHash = Some h \<rparr>,
                       Toast False ''Claim Successful!'' ''200 USDC has been sent to your wallet.'',
                       RefetchClaimInfo, RefetchBalance]"
    if a: "address env = Some a"
  proof -
    have m: "miningState (dispatch env (ConfirmationChanged True (Some h)) s) \<noteq> Mining"
      unfolding d [OF a] by simp
    show ?thesis
      unfolding step_fields tr [OF m] unfolding d [OF a] by simp
  qed
  have d0: "dispatch0 env (ConfirmationChanged0 True (Some h)) s0
             = (s0\<lparr> trace0 := trace0 s0 @ [PostClaimHistory \<lparr> walletAddress = a,
                        amount = toFixedRat 6 (accumulatedReward0 s0),
                        transactionHash = Some h \<rparr>,
                       Toast False ''Claim Successful!'' ''USDC has been sent to your wallet.'',
                       RefetchClaimInfo, RefetchBalance],
                  miningState0 := Idle0, accumulatedReward0 := 0, progress0 := 0,
                  pausedProgress0 := 0, pausedReward0 := 0, pausedTimeLeft0 := 0 \<rparr>)"
    if "address env = Some a"
    using that by (simp add: dispatch0_simps confirmedEffect0_def emit0_def)
  have B: "miningState0 (step0 env (ConfirmationChanged0 True (Some h)) s0) = Idle0
      \<and> progress0 (step0 env (ConfirmationChanged0 True (Some h)) s0) = 0
      \<and> accumulatedReward0 (step0 env (ConfirmationChanged0 True (Some h)) s0) = 0
      \<and> pausedProgress0 (step0 env (ConfirmationChanged0 True (Some h)) s0) = 0
      \<and> pausedReward0 (step0 env (ConfirmationChanged0 True (Some h)) s0) = 0
      \<and> pausedTimeLeft0 (step0 env (ConfirmationChanged0 True (Some h)) s0) = 0
      \<and> trace0 (step0 env (ConfirmationChanged0 True (Some h)) s0)
          = trace0 s0 @ [PostClaimHistory \<lparr> walletAddress = a,
                                             amount = toFixedRat 6 (accumulatedReward0 s0),
                                             transactionHash = Some h \<rparr>,
                         Toast False ''Claim Successful!'' ''USDC has been sent to your wallet.'',
                         RefetchClaimInfo, RefetchBalance]"
    if a: "address env = Some a"
    unfolding step0_fields unfolding d0 [OF a] by simp
  show ?thesis using A B t by simp
qed

theorem confirmed_claim_resets_and_reports_witness:
  "miningState (run [(envAt 0, ClickStart), (envAt 600000, TimerFired 0),
                     (envAt 600500, ClickClaim),
                     (envAt 610000, ConfirmationChanged True (Some ''0xabc''))] initialState)
     = Idle
   \<and> PostClaimHistory \<lparr> walletAddress = ''0x1111111111111111111111111111111111111111'',
                          amount = ''200.000000'', transactionHash = Some ''0xabc'' \<rparr>
      \<in> set (trace (run [(envAt 0, ClickStart), (envAt 600000, TimerFired 0),
                          (envAt 600500, ClickClaim),
                          (envAt 610000, ConfirmationChanged True (Some ''0xabc''))]
                       initialState))
   \<and> miningState0 (run0 [(envAt 0, ClickStart0), (envAt 600000, TimerFired0 0),
                          (envAt 600500, ClickClaim0),
                          (envAt 610000, ConfirmationChanged0 True (Some ''0xabc''))]
                      initialState0)
     = Idle0
   \<and> PostClaimHistory \<lparr> walletAddress = ''0x1111111111111111111111111111111111111111'',
                          amount = ''200.000000'', transactionHash = Some ''0xabc'' \<rparr>
      \<in> set (trace0 (run0 [(envAt 0, ClickStart0), (envAt 600000, TimerFired0 0),
                            (envAt 600500, ClickClaim0),
                            (envAt 610000, ConfirmationChanged0 True (Some ''0xabc''))]
                         initialState0))"
proof -
  define s1 where "s1 = run [(envAt 0, ClickStart), (envAt 600000, TimerFired 0),
                             (envAt 600500, ClickClaim)] initialState"
  define s10 where "s10 = run0 [(envAt 0, ClickStart0), (envAt 600000, TimerFired0 0),
                                (envAt 600500, ClickClaim0)] initialState0"
  have a: "address (envAt 610000) = Some ''0x1111111111111111111111111111111111111111''"
    by (simp add: envAt_def)
  have r: "accumulatedReward0 s10 = 200" unfolding s10_def by code_simp
  have "miningState (step (envAt 610000) (ConfirmationChanged True (Some ''0xabc'')) s1) = Idle
      \<and> PostClaimHistory \<lparr> walletAddress = ''0x1111111111111111111111111111111111111111'',
                          amount = ''200.000000'', transactionHash = Some ''0xabc'' \<rparr>
          \<in> set (trace (step (envAt 610000) (ConfirmationChanged True (Some ''0xabc'')) s1))
      \<and> miningState0 (step0 (envAt 610000) (ConfirmationChanged0 True (Some ''0xabc'')) s10)
          = Idle0
      \<and> PostClaimHistory \<lparr> walletAddress = ''0x1111111111111111111111111111111111111111'',
                          amount = ''200.000000'', transactionHash = Some ''0xabc'' \<rparr>
          \<in> set (trace0 (step0 (envAt 610000) (ConfirmationChanged0 True (Some ''0xabc'')) s10))"
    using confirmed_claim_resets_and_reports
            [of "envAt 610000" "''0x1111111111111111111111111111111111111111''" "''0xabc''"
                s1 s10]
          a r
    by simp
  then show ?thesis unfolding s1_def s10_def by simp
qed

text \<open>
  The claim as stated fails in the earlier component: pause at half of the session, choose
  "Stop and Claim" in the dialog, claim, and on confirmation the amount reported to the
  server is \<^verbatim>\<open>"100.000000"\<close>.
\<close>

theorem partial_claim_counterexample:
  "PostClaimHistory \<lparr> walletAddress = ''0x1111111111111111111111111111111111111111'',
                       amount = ''100.000000'', transactionHash = Some ''0xabc'' \<rparr>
     \<in> set (trace0 (run0 [(envAt 0, ClickStart0), (envAt 300000, TimerFired0 0),
                           (envAt 300050, ClickPause0), (envAt 301000, ClickStopAndClaim0),
                           (envAt 302000, ClickClaim0),
                           (envAt 310000, ConfirmationChanged0 True (Some ''0xabc''))]
                        initialState0))
   \<and> PostClaimHistory \<lparr> walletAddress = ''0x1111111111111111111111111111111111111111'',
                       amount = ''200.000000'', transactionHash = Some ''0xabc'' \<rparr>
     \<notin> set (trace0 (run0 [(envAt 0, ClickStart0), (envAt 300000, TimerFired0 0),
                           (envAt 300050, ClickPause0), (envAt 301000, ClickStopAndClaim0),
                           (envAt 302000, ClickClaim0),
                           (envAt 310000, ConfirmationChanged0 True (Some ''0xabc''))]
                        initialState0))"
  by code_simp

end
